theory Spec2Isabelle
  imports Main "HOL-Library.Sublist"
begin

section \<open>The InfluxDB output of vgo: data model\<close>

text \<open>
  The model follows the file \<^verbatim>\<open>influxdb.go\<close> of the stream outputs (the second half of the
  source under \<^verbatim>\<open>src/vgo/alarm/plugins/output/mail/mail.go\<close>): the struct \<^verbatim>\<open>InfluxDB\<close>, and
  its methods \<^verbatim>\<open>Connect\<close> and \<^verbatim>\<open>Write\<close> with the helper \<^verbatim>\<open>createDatabase\<close>.

  Go's \<^verbatim>\<open>error\<close> values are modelled by their origin: each place of the source where an
  error is born or handed on gets a constructor that carries the text of the error.
  \<^verbatim>\<open>url.Parse\<close>, the InfluxDB client library and \<^verbatim>\<open>math/rand\<close> are not code of this
  program; what they answer is a parameter of the model (the record \<open>env\<close> below).
\<close>

type_synonym duration = int

datatype error =
    ConfigError string        \<comment> \<open>the error of \<^verbatim>\<open>url.Parse(u)\<close>, returned by Connect\<close>
  | ClientError string        \<comment> \<open>the error of \<^verbatim>\<open>NewUDPClient\<close> or \<^verbatim>\<open>NewHTTPClient\<close>\<close>
  | BatchConfigError string   \<comment> \<open>the error of \<^verbatim>\<open>NewBatchPoints\<close>\<close>
  | EncodingError string      \<comment> \<open>the error of \<^verbatim>\<open>NewPoint\<close> on one metric\<close>
  | PoolExhausted             \<comment> \<open>\<^verbatim>\<open>errors.New("Could not write to any InfluxDB server in cluster")\<close>\<close>
  | IndexOutOfRange           \<comment> \<open>the run-time panic of \<^verbatim>\<open>i.conns[n]\<close> with n out of range\<close>

fun Error :: "error \<Rightarrow> string" where
  "Error (ConfigError s) = s"
| "Error (ClientError s) = s"
| "Error (BatchConfigError s) = s"
| "Error (EncodingError s) = s"
| "Error PoolExhausted = ''Could not write to any InfluxDB server in cluster''"
| "Error IndexOutOfRange = ''index out of range''"

datatype UDPConfig = UDPConfig (udp_Addr: string) (udp_PayloadSize: int)

datatype HTTPConfig =
  HTTPConfig (http_Addr: string) (http_Username: string) (http_Password: string)
    (http_UserAgent: string) (http_Timeout: duration)

text \<open>A live connection (\<^verbatim>\<open>client.Client\<close>) is known by the configuration it was built from.\<close>

datatype client = UDPClient UDPConfig | HTTPClient HTTPConfig

fun is_stream :: "client \<Rightarrow> bool" where
  "is_stream (HTTPClient _) = True"
| "is_stream (UDPClient _) = False"

text \<open>
  Modelled from the spec: the type \<^verbatim>\<open>service.Metrics\<close> of the repository is not among the
  sources. A MetricRecord has a name, a tag set, a field set of typed values (numeric,
  string, boolean) and a timestamp; \<open>OtherField\<close> stands for a value of any other type.
  \<open>Write\<close> below receives \<^verbatim>\<open>metrics.Data\<close>, the list of records.
\<close>

datatype field_value = NumericField int | StringField string | BoolField bool | OtherField string

datatype metric =
  Metric (m_Name: string) (m_Tags: "(string \<times> string) list")
    (m_Fields: "(string \<times> field_value) list") (m_Time: int)

datatype point = Point metric

datatype BatchPointsConfig =
  BatchPointsConfig (bp_Database: string) (bp_RetentionPolicy: string) (bp_WriteConsistency: string)

datatype batch = Batch BatchPointsConfig "point list"

fun AddPoint :: "batch \<Rightarrow> point \<Rightarrow> batch" where
  "AddPoint (Batch cfg pts) pt = Batch cfg (pts @ [pt])"

record InfluxDB =
  URL :: string
  URLs :: "string list"
  Username :: string
  Password :: string
  Database :: string
  UserAgent :: string
  RetentionPolicy :: string
  WriteConsistency :: string
  Timeout :: duration
  UDPPayload :: int
  Precision :: string
  conns :: "client list"

subsection \<open>Effects\<close>

text \<open>
  Everything the code does to the outside world is an event of a trace, in the order of
  execution; a request to a connection is recorded with its answer (\<open>None\<close> is Go's
  \<^verbatim>\<open>nil\<close> error).
\<close>

datatype event =
    EvQuery client string "string option"
      \<comment> \<open>\<^verbatim>\<open>c.Query(client.Query{Command: cmd})\<close> and its error\<close>
  | EvWrite nat client batch "string option"
      \<comment> \<open>\<^verbatim>\<open>i.conns[n].Write(bp)\<close> and its error\<close>
  | EvLogPrintln string
      \<comment> \<open>\<^verbatim>\<open>log.Println(text)\<close>\<close>
  | EvLogError string string
      \<comment> \<open>\<^verbatim>\<open>service.VLogger.Error(msg, zap.Error(e))\<close>\<close>
  | EvLogDebug metric
      \<comment> \<open>\<^verbatim>\<open>service.VLogger.Debug("InfluxDB Write", zap.Object("@metric", metric))\<close>\<close>
  | EvLogMetric metric
      \<comment> \<open>\<^verbatim>\<open>log.Println(metric)\<close>\<close>
  | EvRandSeed
      \<comment> \<open>\<^verbatim>\<open>rand.Seed(time.Now().UnixNano())\<close>\<close>

type_synonym trace = "event list"

text \<open>
  The outside world. The answer of a connection may depend on everything that happened
  before (the trace so far), so a database that a schema request has created can accept
  the next write.
\<close>

record env =
  url_parse :: "string \<Rightarrow> string + string"
    \<comment> \<open>\<^verbatim>\<open>url.Parse(u)\<close>: the error text, or \<^verbatim>\<open>parsed_url.Host\<close>\<close>
  UDPPayloadSize :: int
    \<comment> \<open>\<^verbatim>\<open>client.UDPPayloadSize\<close>\<close>
  udp_client_error :: "UDPConfig \<Rightarrow> string option"
  http_client_error :: "HTTPConfig \<Rightarrow> string option"
  query_error :: "client \<Rightarrow> string \<Rightarrow> trace \<Rightarrow> string option"
  write_error :: "client \<Rightarrow> batch \<Rightarrow> trace \<Rightarrow> string option"
  batch_points_error :: "BatchPointsConfig \<Rightarrow> string option"
  point_error :: "metric \<Rightarrow> string option"
  rand_perm :: "nat \<Rightarrow> nat list"
    \<comment> \<open>what \<^verbatim>\<open>rand.Perm(n)\<close> returns in this call\<close>

definition NewUDPClient :: "env \<Rightarrow> UDPConfig \<Rightarrow> string + client" where
  "NewUDPClient e cfg =
     (case udp_client_error e cfg of Some err \<Rightarrow> Inl err | None \<Rightarrow> Inr (UDPClient cfg))"

definition NewHTTPClient :: "env \<Rightarrow> HTTPConfig \<Rightarrow> string + client" where
  "NewHTTPClient e cfg =
     (case http_client_error e cfg of Some err \<Rightarrow> Inl err | None \<Rightarrow> Inr (HTTPClient cfg))"

definition NewBatchPoints :: "env \<Rightarrow> BatchPointsConfig \<Rightarrow> string + batch" where
  "NewBatchPoints e cfg =
     (case batch_points_error e cfg of Some err \<Rightarrow> Inl err | None \<Rightarrow> Inr (Batch cfg []))"

definition NewPoint :: "env \<Rightarrow> metric \<Rightarrow> string + point" where
  "NewPoint e m = (case point_error e m of Some err \<Rightarrow> Inl err | None \<Rightarrow> Inr (Point m))"

section \<open>The operations\<close>

subsection \<open>createDatabase\<close>

text \<open>\<^verbatim>\<open>fmt.Sprintf("CREATE DATABASE \"%s\"", database)\<close>\<close>

definition create_command :: "string \<Rightarrow> string" where
  "create_command database = ''CREATE DATABASE '' @ [CHR 0x22] @ database @ [CHR 0x22]"

definition createDatabase :: "env \<Rightarrow> client \<Rightarrow> string \<Rightarrow> trace \<Rightarrow> string option \<times> trace" where
  "createDatabase e c database tr =
     (let err = query_error e c (create_command database) tr
      in (err, tr @ [EvQuery c (create_command database) err]))"

subsection \<open>Connect\<close>

definition config_urls :: "InfluxDB \<Rightarrow> string list" where
  "config_urls i = URLs i @ (if URL i \<noteq> [] then [URL i] else [])"

definition http_config :: "InfluxDB \<Rightarrow> string \<Rightarrow> HTTPConfig" where
  "http_config i u = HTTPConfig u (Username i) (Password i) (UserAgent i) (Timeout i)"

text \<open>
  The loop \<^verbatim>\<open>for _, u := range urls\<close> of Connect, with the struct (whose \<^verbatim>\<open>UDPPayload\<close> the
  loop may assign), the local \<^verbatim>\<open>conns\<close> and the trace passed along. \<open>Inl\<close> is a
  \<^verbatim>\<open>return err\<close> from inside the loop.
\<close>

fun connect_loop ::
  "env \<Rightarrow> string list \<Rightarrow> InfluxDB \<Rightarrow> client list \<Rightarrow> trace \<Rightarrow> (error + client list) \<times> InfluxDB \<times> trace"
where
  "connect_loop e [] i cs tr = (Inr cs, i, tr)"
| "connect_loop e (u # us) i cs tr =
     (if prefix ''udp'' u then
        (case url_parse e u of
           Inl err \<Rightarrow> (Inl (ConfigError err), i, tr)
         | Inr host \<Rightarrow>
             (let i' = (if UDPPayload i = 0 then i\<lparr>UDPPayload := UDPPayloadSize e\<rparr> else i)
              in case NewUDPClient e (UDPConfig host (UDPPayload i')) of
                   Inl err \<Rightarrow> (Inl (ClientError err), i', tr)
                 | Inr c \<Rightarrow> connect_loop e us i' (cs @ [c]) tr))
      else
        (case NewHTTPClient e (http_config i u) of
           Inl err \<Rightarrow> (Inl (ClientError err), i, tr)
         | Inr c \<Rightarrow>
             (case createDatabase e c (Database i) tr of
                (Some err, tr') \<Rightarrow>
                  connect_loop e us i cs (tr' @ [EvLogPrintln (''Database creation failed: '' @ err)])
              | (None, tr') \<Rightarrow> connect_loop e us i (cs @ [c]) tr')))"

definition Connect :: "env \<Rightarrow> InfluxDB \<Rightarrow> trace \<Rightarrow> error option \<times> InfluxDB \<times> trace" where
  "Connect e i tr =
     (case connect_loop e (config_urls i) i [] tr of
        (Inl err, i', tr') \<Rightarrow> (Some err, i', tr')
      | (Inr cs, i', tr') \<Rightarrow> (None, i'\<lparr>conns := cs\<rparr>, tr' @ [EvRandSeed]))"

subsection \<open>Write\<close>

text \<open>The loop \<^verbatim>\<open>for _, metric := range metrics.Data\<close>: one \<^verbatim>\<open>NewPoint\<close> per record.\<close>

fun add_points :: "env \<Rightarrow> metric list \<Rightarrow> batch \<Rightarrow> trace \<Rightarrow> (string + batch) \<times> trace" where
  "add_points e [] bp tr = (Inr bp, tr)"
| "add_points e (m # ms) bp tr =
     (case NewPoint e m of
        Inl err \<Rightarrow> (Inl err, tr @ [EvLogError ''InfluxDB Write'' err])
      | Inr pt \<Rightarrow> add_points e ms (AddPoint bp pt) (tr @ [EvLogDebug m, EvLogMetric m]))"

definition recreate_failed :: "string \<Rightarrow> string" where
  "recreate_failed database =
     ''ERROR: Database '' @ database @ '' not found and failed to recreate'' @ [CHR 0x0A]"

text \<open>
  The loop \<^verbatim>\<open>for _, n := range p\<close>: \<open>None\<close> is \<^verbatim>\<open>err = nil; break\<close>, the end of the list
  leaves \<^verbatim>\<open>err\<close> as it was set before the loop. \<^verbatim>\<open>strings.Contains(s, t)\<close> is \<open>sublist t s\<close>.
\<close>

fun write_loop :: "env \<Rightarrow> InfluxDB \<Rightarrow> batch \<Rightarrow> nat list \<Rightarrow> trace \<Rightarrow> error option \<times> trace" where
  "write_loop e i bp [] tr = (Some PoolExhausted, tr)"
| "write_loop e i bp (n # ns) tr =
     (if length (conns i) \<le> n then (Some IndexOutOfRange, tr)
      else
        (let c = conns i ! n;
             r = write_error e c bp tr;
             tr1 = tr @ [EvWrite n c bp r]
         in case r of
              None \<Rightarrow> (None, tr1)
            | Some err \<Rightarrow>
                (let tr2 = tr1 @ [EvLogError ''InfluxDB Write'' err]
                 in if sublist ''database not found'' err then
                      (case createDatabase e c (Database i) tr2 of
                         (Some errc, tr3) \<Rightarrow>
                           write_loop e i bp ns
                             (tr3 @ [EvLogError (recreate_failed (Database i)) errc])
                       | (None, tr3) \<Rightarrow> write_loop e i bp ns tr3)
                    else write_loop e i bp ns tr2)))"

definition batch_config :: "InfluxDB \<Rightarrow> BatchPointsConfig" where
  "batch_config i = BatchPointsConfig (Database i) (RetentionPolicy i) (WriteConsistency i)"

definition Write :: "env \<Rightarrow> InfluxDB \<Rightarrow> metric list \<Rightarrow> trace \<Rightarrow> error option \<times> InfluxDB \<times> trace" where
  "Write e i metrics tr =
     (case (if length (conns i) = 0 then Connect e i tr else (None, i, tr)) of
        (Some err, i1, tr1) \<Rightarrow> (Some err, i1, tr1)
      | (None, i1, tr1) \<Rightarrow>
          (case NewBatchPoints e (batch_config i1) of
             Inl err \<Rightarrow> (Some (BatchConfigError err), i1, tr1)
           | Inr bp0 \<Rightarrow>
               (case add_points e metrics bp0 tr1 of
                  (Inl err, tr2) \<Rightarrow> (Some (EncodingError err), i1, tr2)
                | (Inr bp, tr2) \<Rightarrow>
                    (case write_loop e i1 bp (rand_perm e (length (conns i1))) tr2 of
                       (r, tr3) \<Rightarrow> (r, i1, tr3)))))"

subsection \<open>Reading a trace\<close>

text \<open>
  What the events of a call say: \<open>write_attempts\<close> lists the pool indices written to, in
  order, and \<open>deliveries\<close> those whose write succeeded; \<open>contacts\<close> lists the connections
  that received a request, a query or a write. \<open>stops_at_success\<close> holds when a successful
  write is the last event, \<open>failures_logged\<close> when every failed write is followed at once
  by its entry in the log. \<open>reseeds\<close> counts the calls of \<^verbatim>\<open>rand.Seed\<close>, one for each
  \<open>Connect\<close> that succeeds.
\<close>

fun write_attempts :: "trace \<Rightarrow> nat list" where
  "write_attempts [] = []"
| "write_attempts (EvWrite n c bp r # evs) = n # write_attempts evs"
| "write_attempts (_ # evs) = write_attempts evs"

fun deliveries :: "trace \<Rightarrow> nat list" where
  "deliveries [] = []"
| "deliveries (EvWrite n c bp None # evs) = n # deliveries evs"
| "deliveries (_ # evs) = deliveries evs"

fun contacts :: "trace \<Rightarrow> client list" where
  "contacts [] = []"
| "contacts (EvQuery c cmd r # evs) = c # contacts evs"
| "contacts (EvWrite n c bp r # evs) = c # contacts evs"
| "contacts (_ # evs) = contacts evs"

fun stops_at_success :: "trace \<Rightarrow> bool" where
  "stops_at_success [] = True"
| "stops_at_success (EvWrite n c bp None # evs) = (evs = [])"
| "stops_at_success (_ # evs) = stops_at_success evs"

fun failures_logged :: "trace \<Rightarrow> bool" where
  "failures_logged [] = True"
| "failures_logged (EvWrite n c bp (Some err) # evs) =
     (prefix [EvLogError ''InfluxDB Write'' err] evs \<and> failures_logged evs)"
| "failures_logged (_ # evs) = failures_logged evs"

fun reseeds :: "trace \<Rightarrow> nat" where
  "reseeds [] = 0"
| "reseeds (EvRandSeed # evs) = Suc (reseeds evs)"
| "reseeds (_ # evs) = reseeds evs"

text \<open>The events of one turn of the loop of \<open>Write\<close> whose write fails with \<open>err\<close>.\<close>

definition failure_events :: "env \<Rightarrow> InfluxDB \<Rightarrow> batch \<Rightarrow> nat \<Rightarrow> string \<Rightarrow> trace \<Rightarrow> trace" where
  "failure_events e i bp n err tr =
     (let c = conns i ! n;
          evs = [EvWrite n c bp (Some err), EvLogError ''InfluxDB Write'' err]
      in if sublist ''database not found'' err then
           (let q = query_error e c (create_command (Database i)) (tr @ evs)
            in evs @ EvQuery c (create_command (Database i)) q #
                 (case q of None \<Rightarrow> [] | Some errc \<Rightarrow> [EvLogError (recreate_failed (Database i)) errc]))
         else evs)"

text \<open>
  For \<open>Connect\<close>: \<open>schema_requests\<close> lists the queries sent, with their connection;
  \<open>accepted\<close> the connections whose query had no error; \<open>request_failures_logged\<close> holds
  when every query with an error is followed at once by its entry in the log.
\<close>

fun schema_requests :: "trace \<Rightarrow> (client \<times> string) list" where
  "schema_requests [] = []"
| "schema_requests (EvQuery c cmd r # evs) = (c, cmd) # schema_requests evs"
| "schema_requests (_ # evs) = schema_requests evs"

fun accepted :: "trace \<Rightarrow> client list" where
  "accepted [] = []"
| "accepted (EvQuery c cmd None # evs) = c # accepted evs"
| "accepted (_ # evs) = accepted evs"

fun request_failures_logged :: "trace \<Rightarrow> bool" where
  "request_failures_logged [] = True"
| "request_failures_logged (EvQuery c cmd (Some err) # evs) =
     (prefix [EvLogPrintln (''Database creation failed: '' @ err)] evs \<and>
      request_failures_logged evs)"
| "request_failures_logged (_ # evs) = request_failures_logged evs"

text \<open>
  The payload size \<open>Connect\<close> gives a datagram client: the configured one, or the default
  of the library when none is configured. A URL \<open>aborts\<close> the build when \<open>Connect\<close>
  returns an error at it: a datagram URL that does not parse, or a URL whose client is
  not constructed.
\<close>

definition payload_used :: "env \<Rightarrow> InfluxDB \<Rightarrow> int" where
  "payload_used e i = (if UDPPayload i = 0 then UDPPayloadSize e else UDPPayload i)"

definition aborts :: "env \<Rightarrow> InfluxDB \<Rightarrow> string \<Rightarrow> bool" where
  "aborts e i u =
     (if prefix ''udp'' u then
        (case url_parse e u of
           Inl err \<Rightarrow> True
         | Inr host \<Rightarrow> udp_client_error e (UDPConfig host (payload_used e i)) \<noteq> None)
      else http_client_error e (http_config i u) \<noteq> None)"

text \<open>The events and the pool entry of one stream URL whose client is constructed.\<close>

definition stream_events :: "env \<Rightarrow> InfluxDB \<Rightarrow> string \<Rightarrow> trace \<Rightarrow> trace" where
  "stream_events e i u tr =
     (let c = HTTPClient (http_config i u);
          q = query_error e c (create_command (Database i)) tr
      in EvQuery c (create_command (Database i)) q #
           (case q of None \<Rightarrow> [] | Some err \<Rightarrow> [EvLogPrintln (''Database creation failed: '' @ err)]))"

definition stream_conn :: "env \<Rightarrow> InfluxDB \<Rightarrow> string \<Rightarrow> trace \<Rightarrow> client list" where
  "stream_conn e i u tr =
     (let c = HTTPClient (http_config i u)
      in case query_error e c (create_command (Database i)) tr of None \<Rightarrow> [c] | Some err \<Rightarrow> [])"

text \<open>The contract of \<^verbatim>\<open>rand.Perm(n)\<close>: a permutation of the integers [0,n).\<close>

definition permutation_of :: "nat list \<Rightarrow> nat \<Rightarrow> bool" where
  "permutation_of p n = (distinct p \<and> set p = {0..<n})"

subsection \<open>Concrete runs\<close>

text \<open>
  A world in which every endpoint answers and every request succeeds, a configuration as
  in the sample of the source, two stream connections and two records; the scenarios
  below change one answer of the world at a time.
\<close>

text \<open>
  The answer of \<^verbatim>\<open>client.NewPoint\<close> in these runs: a record without fields is rejected
  (\<^verbatim>\<open>Point without fields is unsupported\<close>), every other record is accepted, whatever the
  types of its fields.
\<close>

definition field_check :: "metric \<Rightarrow> string option" where
  "field_check m =
     (if m_Fields m = [] then Some ''Point without fields is unsupported'' else None)"

definition parse_host :: "string \<Rightarrow> string + string" where
  "parse_host u =
     (let h = drop 6 u
      in if CHR ''['' \<in> set h \<and> CHR '']'' \<notin> set h then Inl ''missing ] in host'' else Inr h)"

definition healthy_world :: env where
  "healthy_world =
     \<lparr>url_parse = parse_host, UDPPayloadSize = 512,
      udp_client_error = (\<lambda>cfg. None), http_client_error = (\<lambda>cfg. None),
      query_error = (\<lambda>c cmd h. None), write_error = (\<lambda>c bp h. None),
      batch_points_error = (\<lambda>cfg. None), point_error = field_check,
      rand_perm = (\<lambda>n. [0..<n])\<rparr>"

definition settings :: InfluxDB where
  "settings =
     \<lparr>URL = [], URLs = [], Username = ''telegraf'', Password = ''secret'',
      Database = ''telegraf'', UserAgent = ''telegraf'', RetentionPolicy = [],
      WriteConsistency = ''any'', Timeout = 5000000000, UDPPayload = 0, Precision = [],
      conns = []\<rparr>"

definition conn_a :: client where
  "conn_a = HTTPClient (http_config settings ''http://a:8086'')"

definition conn_b :: client where
  "conn_b = HTTPClient (http_config settings ''http://b:8086'')"

definition cpu_metric :: metric where
  "cpu_metric = Metric ''cpu'' [(''host'', ''web1'')] [(''idle'', NumericField 97)] 1477900000"

definition fieldless_metric :: metric where
  "fieldless_metric = Metric ''cpu'' [(''host'', ''web1'')] [] 1477900000"

definition world_a :: env where
  "world_a = healthy_world\<lparr>write_error :=
     (\<lambda>c bp h. if c = conn_a then Some ''database not found'' else None)\<rparr>"

definition cpu_batch :: batch where
  "cpu_batch = Batch (batch_config settings) [Point cpu_metric]"

definition trace_a :: trace where
  "trace_a =
     [EvLogDebug cpu_metric, EvLogMetric cpu_metric,
      EvWrite 0 conn_a cpu_batch (Some ''database not found''),
      EvLogError ''InfluxDB Write'' ''database not found'',
      EvQuery conn_a (create_command ''telegraf'') None,
      EvWrite 1 conn_b cpu_batch None]"

definition world_b :: env where
  "world_b = healthy_world\<lparr>write_error := (\<lambda>c bp h. Some ''i/o timeout'')\<rparr>"

definition trace_b :: trace where
  "trace_b =
     [EvLogDebug cpu_metric, EvLogMetric cpu_metric,
      EvWrite 0 conn_a cpu_batch (Some ''i/o timeout''),
      EvLogError ''InfluxDB Write'' ''i/o timeout'',
      EvWrite 1 conn_b cpu_batch (Some ''i/o timeout''),
      EvLogError ''InfluxDB Write'' ''i/o timeout'']"

text \<open>
  ``Logs the outcome'' of a schema request, read as the claim words it: every schema
  request is followed at once by an entry of the log.
\<close>

fun ensure_outcome_logged :: "trace \<Rightarrow> bool" where
  "ensure_outcome_logged [] = True"
| "ensure_outcome_logged (EvQuery c cmd q # evs) =
     ((case evs of EvLogError msg err # rest \<Rightarrow> True | EvLogPrintln s # rest \<Rightarrow> True | _ \<Rightarrow> False) \<and>
      ensure_outcome_logged evs)"
| "ensure_outcome_logged (_ # evs) = ensure_outcome_logged evs"

definition world_c :: env where
  "world_c = healthy_world\<lparr>write_error := (\<lambda>c bp h. Some ''database not found'')\<rparr>"

definition trace_c :: trace where
  "trace_c =
     [EvLogDebug cpu_metric, EvLogMetric cpu_metric,
      EvWrite 0 conn_a cpu_batch (Some ''database not found''),
      EvLogError ''InfluxDB Write'' ''database not found'',
      EvQuery conn_a (create_command ''telegraf'') None]"

definition settings_udp_http :: InfluxDB where
  "settings_udp_http = settings\<lparr>URLs := [''udp://h:8089'', ''http://a:8086'']\<rparr>"

definition conn_udp :: client where
  "conn_udp = UDPClient (UDPConfig ''h:8089'' 512)"

definition settings_http :: InfluxDB where
  "settings_http = settings\<lparr>URLs := [''http://a:8086'']\<rparr>"

definition settings_unparsable :: InfluxDB where
  "settings_unparsable = settings\<lparr>URLs := [''udp://[::1'', ''http://a:8086'']\<rparr>"

definition world_refusing :: env where
  "world_refusing = healthy_world\<lparr>query_error := (\<lambda>c cmd h. Some ''connection refused'')\<rparr>"

definition settings_two_http :: InfluxDB where
  "settings_two_http = settings\<lparr>URLs := [''http://a:8086'', ''http://b:8086'']\<rparr>"

definition settings_bad_udp :: InfluxDB where
  "settings_bad_udp = settings\<lparr>URLs := [''udp://[fe80::1:8089'']\<rparr>"

definition settings_late_unparsable :: InfluxDB where
  "settings_late_unparsable =
     settings\<lparr>URLs := [''http://a:8086'', ''udp://[::1'', ''http://b:8086'']\<rparr>"

section \<open>Facts about the loops\<close>

lemma write_attempts_append: "write_attempts (xs @ ys) = write_attempts xs @ write_attempts ys"
  by (induction xs rule: write_attempts.induct) simp_all

lemma deliveries_append: "deliveries (xs @ ys) = deliveries xs @ deliveries ys"
  by (induction xs rule: deliveries.induct) simp_all

lemma reseeds_append: "reseeds (xs @ ys) = reseeds xs + reseeds ys"
  by (induction xs rule: reseeds.induct) simp_all

lemma stops_at_success_append:
  "write_attempts xs = [] \<Longrightarrow> stops_at_success (xs @ ys) = stops_at_success ys"
  by (induction xs rule: write_attempts.induct) simp_all

lemma failures_logged_append:
  "write_attempts xs = [] \<Longrightarrow> failures_logged (xs @ ys) = failures_logged ys"
  by (induction xs rule: write_attempts.induct) simp_all

lemma deliveries_quiet: "write_attempts xs = [] \<Longrightarrow> deliveries xs = []"
  by (induction xs rule: deliveries.induct) simp_all

lemma write_loop_step:
  assumes "n < length (conns i)" and "write_error e (conns i ! n) bp tr = Some err"
  shows "write_loop e i bp (n # ns) tr = write_loop e i bp ns (tr @ failure_events e i bp n err tr)"
  using assms
  by (simp add: failure_events_def Let_def createDatabase_def split: option.splits)

lemma failure_events_reads:
  "write_attempts (failure_events e i bp n err tr @ evs) = n # write_attempts evs"
  "deliveries (failure_events e i bp n err tr @ evs) = deliveries evs"
  "reseeds (failure_events e i bp n err tr @ evs) = reseeds evs"
  "stops_at_success (failure_events e i bp n err tr @ evs) = stops_at_success evs"
  "failures_logged (failure_events e i bp n err tr @ evs) = failures_logged evs"
  "set (contacts (failure_events e i bp n err tr @ evs)) = insert (conns i ! n) (set (contacts evs))"
  by (simp_all add: failure_events_def Let_def split: option.splits)

lemma write_loop_shape:
  "write_loop e i bp ns tr = (r, tr') \<Longrightarrow>
   \<exists>evs. tr' = tr @ evs \<and> prefix (write_attempts evs) ns \<and> stops_at_success evs \<and>
     length (deliveries evs) \<le> 1 \<and> (r = None) = (deliveries evs \<noteq> []) \<and>
     (r = Some PoolExhausted \<longrightarrow> write_attempts evs = ns) \<and>
     (r = None \<longrightarrow> deliveries evs = [last (write_attempts evs)]) \<and>
     (r = Some IndexOutOfRange \<longrightarrow> \<not> (\<forall>n\<in>set ns. n < length (conns i))) \<and>
     (r = None \<or> r = Some PoolExhausted \<or> r = Some IndexOutOfRange) \<and>
     failures_logged evs \<and> set (contacts evs) \<subseteq> set (conns i) \<and> reseeds evs = 0"
proof (induction ns arbitrary: tr r tr')
  case Nil
  then show ?case by auto
next
  case (Cons n ns)
  show ?case
  proof (cases "length (conns i) \<le> n")
    case True
    with Cons.prems show ?thesis by auto
  next
    case inr: False
    show ?thesis
    proof (cases "write_error e (conns i ! n) bp tr")
      case None
      with Cons.prems inr have "r = None" "tr' = tr @ [EvWrite n (conns i ! n) bp None]"
        by (auto simp: Let_def)
      then show ?thesis using inr by auto
    next
      case (Some err)
      define pre where "pre = failure_events e i bp n err tr"
      have "write_loop e i bp ns (tr @ pre) = (r, tr')"
        using write_loop_step[of n i e bp tr err ns] inr Some Cons.prems by (simp add: pre_def)
      from Cons.IH[OF this] obtain evs where evs: "tr' = (tr @ pre) @ evs"
        "prefix (write_attempts evs) ns" "stops_at_success evs"
        "length (deliveries evs) \<le> 1" "(r = None) = (deliveries evs \<noteq> [])"
        "r = Some PoolExhausted \<longrightarrow> write_attempts evs = ns"
        "r = None \<longrightarrow> deliveries evs = [last (write_attempts evs)]"
        "r = Some IndexOutOfRange \<longrightarrow> \<not> (\<forall>n\<in>set ns. n < length (conns i))"
        "r = None \<or> r = Some PoolExhausted \<or> r = Some IndexOutOfRange"
        "failures_logged evs" "set (contacts evs) \<subseteq> set (conns i)" "reseeds evs = 0"
        by blast
      have ne: "r = None \<Longrightarrow> write_attempts evs \<noteq> []"
        using evs(5) deliveries_quiet by blast
      note rd = failure_events_reads[of e i bp n err tr evs, folded pre_def]
      have A: "tr' = tr @ (pre @ evs)" using evs(1) by simp
      have B: "prefix (write_attempts (pre @ evs)) (n # ns)"
        using evs(2) by (simp add: rd)
      have C: "stops_at_success (pre @ evs)" using evs(3) by (simp add: rd)
      have D: "length (deliveries (pre @ evs)) \<le> 1" using evs(4) by (simp add: rd)
      have E: "(r = None) = (deliveries (pre @ evs) \<noteq> [])" using evs(5) by (simp add: rd)
      have F: "r = Some PoolExhausted \<longrightarrow> write_attempts (pre @ evs) = n # ns"
        using evs(6) by (simp add: rd)
      have G: "r = None \<longrightarrow> deliveries (pre @ evs) = [last (write_attempts (pre @ evs))]"
        using evs(7) ne by (simp add: rd)
      have H: "r = Some IndexOutOfRange \<longrightarrow> \<not> (\<forall>m\<in>set (n # ns). m < length (conns i))"
        using evs(8) by simp
      have J: "failures_logged (pre @ evs)" using evs(10) by (simp add: rd)
      have K: "set (contacts (pre @ evs)) \<subseteq> set (conns i)"
        using evs(11) inr by (simp add: rd)
      have L: "reseeds (pre @ evs) = 0" using evs(12) by (simp add: rd)
      show ?thesis using A B C D E F G H evs(9) J K L by blast
    qed
  qed
qed

lemma add_points_shape:
  "add_points e ms bp tr = (r, tr') \<Longrightarrow>
   \<exists>evs. tr' = tr @ evs \<and> write_attempts evs = [] \<and> contacts evs = [] \<and> reseeds evs = 0 \<and>
     (case r of
        Inl err \<Rightarrow> \<exists>m\<in>set ms. point_error e m = Some err
      | Inr bp' \<Rightarrow> \<forall>m\<in>set ms. point_error e m = None)"
proof (induction ms arbitrary: bp tr)
  case Nil
  then show ?case by auto
next
  case (Cons m ms)
  show ?case
  proof (cases "point_error e m")
    case None
    with Cons.prems
    have "add_points e ms (AddPoint bp (Point m)) (tr @ [EvLogDebug m, EvLogMetric m]) = (r, tr')"
      by (simp add: NewPoint_def)
    from Cons.IH[OF this] obtain evs where
      "tr' = (tr @ [EvLogDebug m, EvLogMetric m]) @ evs" "write_attempts evs = []"
      "contacts evs = []" "reseeds evs = 0"
      "case r of Inl err \<Rightarrow> \<exists>m\<in>set ms. point_error e m = Some err
       | Inr bp' \<Rightarrow> \<forall>m\<in>set ms. point_error e m = None"
      by blast
    then show ?thesis using None
      by (intro exI[of _ "[EvLogDebug m, EvLogMetric m] @ evs"]) (auto split: sum.splits)
  next
    case (Some err)
    with Cons.prems show ?thesis by (auto simp: NewPoint_def)
  qed
qed

lemma connect_loop_stream_step:
  assumes "\<not> prefix ''udp'' u" and "http_client_error e (http_config i u) = None"
  shows "connect_loop e (u # us) i cs tr =
         connect_loop e us i (cs @ stream_conn e i u tr) (tr @ stream_events e i u tr)"
  using assms
  by (simp add: NewHTTPClient_def createDatabase_def stream_events_def stream_conn_def Let_def
      split: option.splits)

lemma connect_loop_udp_step:
  assumes "prefix ''udp'' u" and "url_parse e u = Inr host"
    and "udp_client_error e (UDPConfig host (payload_used e i)) = None"
  shows "connect_loop e (u # us) i cs tr =
         connect_loop e us (i\<lparr>UDPPayload := payload_used e i\<rparr>)
           (cs @ [UDPClient (UDPConfig host (payload_used e i))]) tr"
  using assms by (cases "UDPPayload i = 0") (simp_all add: NewUDPClient_def payload_used_def)

lemma connect_loop_abort:
  assumes "aborts e i u"
  shows "\<exists>err i'. (\<forall>us. connect_loop e (u # us) i cs tr = (Inl err, i', tr)) \<and>
           (\<exists>s. err = ConfigError s \<or> err = ClientError s) \<and>
           i' = i\<lparr>UDPPayload := UDPPayload i'\<rparr> \<and>
           (UDPPayload i' = UDPPayload i \<or> UDPPayload i = 0 \<and> UDPPayload i' = UDPPayloadSize e)"
proof (cases "prefix ''udp'' u")
  case True
  show ?thesis
  proof (cases "url_parse e u")
    case (Inl err)
    then have "\<forall>us. connect_loop e (u # us) i cs tr = (Inl (ConfigError err), i, tr)"
      using True by simp
    then show ?thesis
      by (intro exI[of _ "ConfigError err"] exI[of _ i]) simp
  next
    case (Inr host)
    with assms True obtain y where
      y: "udp_client_error e (UDPConfig host (payload_used e i)) = Some y"
      by (auto simp: aborts_def)
    have "\<forall>us. connect_loop e (u # us) i cs tr =
            (Inl (ClientError y), i\<lparr>UDPPayload := payload_used e i\<rparr>, tr)"
      using True Inr y
      by (cases "UDPPayload i = 0") (simp_all add: NewUDPClient_def payload_used_def)
    then show ?thesis
      by (intro exI[of _ "ClientError y"] exI[of _ "i\<lparr>UDPPayload := payload_used e i\<rparr>"])
        (simp add: payload_used_def)
  qed
next
  case False
  with assms obtain y where "http_client_error e (http_config i u) = Some y"
    by (auto simp: aborts_def)
  then have "\<forall>us. connect_loop e (u # us) i cs tr = (Inl (ClientError y), i, tr)"
    using False by (simp add: NewHTTPClient_def)
  then show ?thesis
    by (intro exI[of _ "ClientError y"] exI[of _ i]) simp
qed

lemma stream_events_reads:
  "write_attempts (stream_events e i u tr @ evs) = write_attempts evs"
  "reseeds (stream_events e i u tr @ evs) = reseeds evs"
  "schema_requests (stream_events e i u tr @ evs) =
     (HTTPClient (http_config i u), create_command (Database i)) # schema_requests evs"
  "accepted (stream_events e i u tr @ evs) = stream_conn e i u tr @ accepted evs"
  "request_failures_logged (stream_events e i u tr @ evs) = request_failures_logged evs"
  by (simp_all add: stream_events_def stream_conn_def Let_def split: option.splits)

lemma payload_used_update [simp]:
  "payload_used e (i\<lparr>UDPPayload := payload_used e i\<rparr>) = payload_used e i"
  by (simp add: payload_used_def)

lemma aborts_update [simp]: "aborts e (i\<lparr>UDPPayload := payload_used e i\<rparr>) u = aborts e i u"
  by (simp add: aborts_def http_config_def split: sum.splits)

lemma connect_loop_frame:
  "connect_loop e us i cs tr = (res, i', tr') \<Longrightarrow>
   i' = i\<lparr>UDPPayload := UDPPayload i'\<rparr> \<and>
   (UDPPayload i' = UDPPayload i \<or> UDPPayload i = 0 \<and> UDPPayload i' = UDPPayloadSize e) \<and>
   (\<forall>err. res = Inl err \<longrightarrow> (\<exists>s. err = ConfigError s \<or> err = ClientError s)) \<and>
   (\<exists>evs. tr' = tr @ evs \<and> write_attempts evs = [] \<and> reseeds evs = 0)"
proof (induction us arbitrary: i cs tr)
  case Nil
  then show ?case by auto
next
  case (Cons u us)
  show ?case
  proof (cases "aborts e i u")
    case True
    from connect_loop_abort[OF this, of cs tr] Cons.prems show ?thesis by auto
  next
    case False
    show ?thesis
    proof (cases "prefix ''udp'' u")
      case True
      with False obtain host where h: "url_parse e u = Inr host"
        "udp_client_error e (UDPConfig host (payload_used e i)) = None"
        by (auto simp: aborts_def split: sum.splits)
      from connect_loop_udp_step[OF True h] Cons.prems
      have "connect_loop e us (i\<lparr>UDPPayload := payload_used e i\<rparr>)
              (cs @ [UDPClient (UDPConfig host (payload_used e i))]) tr = (res, i', tr')" by simp
      from Cons.IH[OF this] show ?thesis
        by (auto simp: payload_used_def split: if_splits)
    next
      case str: False
      with False have h: "http_client_error e (http_config i u) = None"
        by (simp add: aborts_def)
      from connect_loop_stream_step[OF str h] Cons.prems
      have "connect_loop e us i (cs @ stream_conn e i u tr) (tr @ stream_events e i u tr) = (res, i', tr')"
        by simp
      from Cons.IH[OF this] obtain evs where
        a: "i' = i\<lparr>UDPPayload := UDPPayload i'\<rparr>"
          "UDPPayload i' = UDPPayload i \<or> UDPPayload i = 0 \<and> UDPPayload i' = UDPPayloadSize e"
          "\<forall>err. res = Inl err \<longrightarrow> (\<exists>s. err = ConfigError s \<or> err = ClientError s)"
        and b: "tr' = (tr @ stream_events e i u tr) @ evs" "write_attempts evs = []" "reseeds evs = 0"
        by blast
      have "tr' = tr @ (stream_events e i u tr @ evs)" using b by simp
      moreover have "write_attempts (stream_events e i u tr @ evs) = []"
        "reseeds (stream_events e i u tr @ evs) = 0"
        using b by (simp_all add: stream_events_reads)
      ultimately show ?thesis using a by blast
    qed
  qed
qed

lemma connect_loop_aborts_iff:
  "isl (fst (connect_loop e us i cs tr)) \<longleftrightarrow> (\<exists>u\<in>set us. aborts e i u)"
proof (induction us arbitrary: i cs tr)
  case Nil
  then show ?case by simp
next
  case (Cons u us)
  show ?case
  proof (cases "aborts e i u")
    case True
    from connect_loop_abort[OF this, of cs tr] obtain err i' where
      "connect_loop e (u # us) i cs tr = (Inl err, i', tr)" by blast
    then show ?thesis using True by (simp del: connect_loop.simps)
  next
    case False
    show ?thesis
    proof (cases "prefix ''udp'' u")
      case True
      with False obtain host where h: "url_parse e u = Inr host"
        "udp_client_error e (UDPConfig host (payload_used e i)) = None"
        by (auto simp: aborts_def split: sum.splits)
      show ?thesis using False Cons.IH
        by (simp add: connect_loop_udp_step[OF True h] del: connect_loop.simps)
    next
      case str: False
      with False have h: "http_client_error e (http_config i u) = None"
        by (simp add: aborts_def)
      show ?thesis using False Cons.IH
        by (simp add: connect_loop_stream_step[OF str h] del: connect_loop.simps)
    qed
  qed
qed

lemma stream_conn_reads:
  "filter is_stream (stream_conn e i u tr) = stream_conn e i u tr"
  "filter (\<lambda>c. \<not> is_stream c) (stream_conn e i u tr) = []"
  "UDPClient cfg \<notin> set (stream_conn e i u tr)"
  by (simp_all add: stream_conn_def Let_def split: option.splits)

lemma http_config_update [simp]: "http_config (i\<lparr>UDPPayload := p\<rparr>) u = http_config i u"
  by (simp add: http_config_def)

lemma connect_loop_built:
  "connect_loop e us i cs tr = (Inr cs', i', tr') \<Longrightarrow>
   \<exists>evs. tr' = tr @ evs \<and>
     schema_requests evs =
       map (\<lambda>u. (HTTPClient (http_config i u), create_command (Database i)))
         (filter (\<lambda>u. \<not> prefix ''udp'' u) us) \<and>
     filter is_stream cs' = filter is_stream cs @ accepted evs \<and>
     request_failures_logged evs \<and>
     length (filter (\<lambda>c. \<not> is_stream c) cs') =
       length (filter (\<lambda>c. \<not> is_stream c) cs) + length (filter (prefix ''udp'') us) \<and>
     (\<forall>cfg. UDPClient cfg \<in> set cs' \<longrightarrow>
        UDPClient cfg \<in> set cs \<or> udp_PayloadSize cfg = payload_used e i) \<and>
     UDPPayload i' = (if \<exists>u\<in>set us. prefix ''udp'' u then payload_used e i else UDPPayload i)"
proof (induction us arbitrary: i cs tr)
  case Nil
  then show ?case by auto
next
  case (Cons u us)
  have na: "\<not> aborts e i u"
    using connect_loop_aborts_iff[of e "u # us" i cs tr] Cons.prems by auto
  show ?case
  proof (cases "prefix ''udp'' u")
    case True
    with na obtain host where h: "url_parse e u = Inr host"
      "udp_client_error e (UDPConfig host (payload_used e i)) = None"
      by (auto simp: aborts_def split: sum.splits)
    define i1 where "i1 = i\<lparr>UDPPayload := payload_used e i\<rparr>"
    define c where "c = UDPClient (UDPConfig host (payload_used e i))"
    from connect_loop_udp_step[OF True h] Cons.prems
    have "connect_loop e us i1 (cs @ [c]) tr = (Inr cs', i', tr')" by (simp add: i1_def c_def)
    from Cons.IH[OF this] obtain evs where evs: "tr' = tr @ evs"
      "schema_requests evs =
         map (\<lambda>u. (HTTPClient (http_config i1 u), create_command (Database i1)))
           (filter (\<lambda>u. \<not> prefix ''udp'' u) us)"
      "filter is_stream cs' = filter is_stream (cs @ [c]) @ accepted evs"
      "request_failures_logged evs"
      "length (filter (\<lambda>c. \<not> is_stream c) cs') =
         length (filter (\<lambda>c. \<not> is_stream c) (cs @ [c])) + length (filter (prefix ''udp'') us)"
      "\<forall>cfg. UDPClient cfg \<in> set cs' \<longrightarrow>
          UDPClient cfg \<in> set (cs @ [c]) \<or> udp_PayloadSize cfg = payload_used e i1"
      "UDPPayload i' = (if \<exists>u\<in>set us. prefix ''udp'' u then payload_used e i1 else UDPPayload i1)"
      by blast
    have p1: "payload_used e i1 = payload_used e i" "UDPPayload i1 = payload_used e i"
      "Database i1 = Database i" "\<And>v. http_config i1 v = http_config i v"
      by (simp_all add: i1_def)
    have B: "schema_requests evs =
       map (\<lambda>u. (HTTPClient (http_config i u), create_command (Database i)))
         (filter (\<lambda>u. \<not> prefix ''udp'' u) (u # us))"
      using evs(2) True by (simp add: p1)
    have C: "filter is_stream cs' = filter is_stream cs @ accepted evs"
      using evs(3) by (simp add: c_def)
    have E: "length (filter (\<lambda>c. \<not> is_stream c) cs') =
       length (filter (\<lambda>c. \<not> is_stream c) cs) + length (filter (prefix ''udp'') (u # us))"
      using evs(5) True by (simp add: c_def)
    have F: "\<forall>cfg. UDPClient cfg \<in> set cs' \<longrightarrow>
        UDPClient cfg \<in> set cs \<or> udp_PayloadSize cfg = payload_used e i"
      using evs(6) by (auto simp: c_def p1)
    have G: "UDPPayload i' =
       (if \<exists>u\<in>set (u # us). prefix ''udp'' u then payload_used e i else UDPPayload i)"
      using evs(7) True by (simp add: p1)
    show ?thesis using evs(1) B C evs(4) E F G by blast
  next
    case str: False
    with na have h: "http_client_error e (http_config i u) = None"
      by (simp add: aborts_def)
    define pre where "pre = stream_events e i u tr"
    define sc where "sc = stream_conn e i u tr"
    from connect_loop_stream_step[OF str h] Cons.prems
    have "connect_loop e us i (cs @ sc) (tr @ pre) = (Inr cs', i', tr')"
      by (simp add: pre_def sc_def)
    from Cons.IH[OF this] obtain evs where evs: "tr' = (tr @ pre) @ evs"
      "schema_requests evs =
         map (\<lambda>u. (HTTPClient (http_config i u), create_command (Database i)))
           (filter (\<lambda>u. \<not> prefix ''udp'' u) us)"
      "filter is_stream cs' = filter is_stream (cs @ sc) @ accepted evs"
      "request_failures_logged evs"
      "length (filter (\<lambda>c. \<not> is_stream c) cs') =
         length (filter (\<lambda>c. \<not> is_stream c) (cs @ sc)) + length (filter (prefix ''udp'') us)"
      "\<forall>cfg. UDPClient cfg \<in> set cs' \<longrightarrow>
          UDPClient cfg \<in> set (cs @ sc) \<or> udp_PayloadSize cfg = payload_used e i"
      "UDPPayload i' = (if \<exists>u\<in>set us. prefix ''udp'' u then payload_used e i else UDPPayload i)"
      by blast
    note rd = stream_events_reads[of e i u tr evs, folded pre_def sc_def]
    note sr = stream_conn_reads[where e=e and i=i and u=u and tr=tr, folded sc_def]
    have A: "tr' = tr @ (pre @ evs)" using evs(1) by simp
    have B: "schema_requests (pre @ evs) =
       map (\<lambda>u. (HTTPClient (http_config i u), create_command (Database i)))
         (filter (\<lambda>u. \<not> prefix ''udp'' u) (u # us))"
      using evs(2) str by (simp add: rd)
    have C: "filter is_stream cs' = filter is_stream cs @ accepted (pre @ evs)"
      using evs(3) by (simp add: rd sr)
    have D: "request_failures_logged (pre @ evs)" using evs(4) by (simp add: rd)
    have E: "length (filter (\<lambda>c. \<not> is_stream c) cs') =
       length (filter (\<lambda>c. \<not> is_stream c) cs) + length (filter (prefix ''udp'') (u # us))"
      using evs(5) str by (simp add: sr)
    have F: "\<forall>cfg. UDPClient cfg \<in> set cs' \<longrightarrow>
        UDPClient cfg \<in> set cs \<or> udp_PayloadSize cfg = payload_used e i"
      using evs(6) sr(3) by auto
    have G: "UDPPayload i' =
       (if \<exists>u\<in>set (u # us). prefix ''udp'' u then payload_used e i else UDPPayload i)"
      using evs(7) str by simp
    show ?thesis using A B C D E F G by blast
  qed
qed

lemma connect_loop_append:
  "connect_loop e (xs @ ys) i cs tr =
     (case connect_loop e xs i cs tr of
        (Inl err, i1, tr1) \<Rightarrow> (Inl err, i1, tr1)
      | (Inr cs1, i1, tr1) \<Rightarrow> connect_loop e ys i1 cs1 tr1)"
proof (induction xs arbitrary: i cs tr)
  case Nil
  then show ?case by simp
next
  case (Cons u xs)
  show ?case
  proof (cases "aborts e i u")
    case True
    from connect_loop_abort[OF this, of cs tr] obtain err i' where
      "\<And>us. connect_loop e (u # us) i cs tr = (Inl err, i', tr)"
      by blast
    then show ?thesis by (simp del: connect_loop.simps)
  next
    case False
    show ?thesis
    proof (cases "prefix ''udp'' u")
      case True
      with False obtain host where h: "url_parse e u = Inr host"
        "udp_client_error e (UDPConfig host (payload_used e i)) = None"
        by (auto simp: aborts_def split: sum.splits)
      show ?thesis using Cons.IH
        by (simp add: connect_loop_udp_step[OF True h] del: connect_loop.simps)
    next
      case str: False
      with False have h: "http_client_error e (http_config i u) = None"
        by (simp add: aborts_def)
      show ?thesis using Cons.IH
        by (simp add: connect_loop_stream_step[OF str h] del: connect_loop.simps)
    qed
  qed
qed

lemma Connect_shape:
  assumes "Connect e i tr = (rc, i', tr')"
  shows "\<exists>evs. tr' = tr @ evs \<and> write_attempts evs = [] \<and>
           reseeds evs = (if rc = None then 1 else 0) \<and>
           (\<forall>err. rc = Some err \<longrightarrow> (\<exists>s. err = ConfigError s \<or> err = ClientError s) \<and> conns i' = conns i) \<and>
           i' = i\<lparr>UDPPayload := UDPPayload i', conns := conns i'\<rparr> \<and>
           (UDPPayload i' = UDPPayload i \<or> UDPPayload i = 0 \<and> UDPPayload i' = UDPPayloadSize e)"
proof -
  obtain res i1 tr1 where cl: "connect_loop e (config_urls i) i [] tr = (res, i1, tr1)"
    by (cases "connect_loop e (config_urls i) i [] tr") auto
  define p where "p = UDPPayload i1"
  from connect_loop_frame[OF cl] obtain evs where
    fr: "i1 = i\<lparr>UDPPayload := p\<rparr>"
      "p = UDPPayload i \<or> UDPPayload i = 0 \<and> p = UDPPayloadSize e"
      "\<forall>err. res = Inl err \<longrightarrow> (\<exists>s. err = ConfigError s \<or> err = ClientError s)"
    and evs: "tr1 = tr @ evs" "write_attempts evs = []" "reseeds evs = 0"
    unfolding p_def by blast
  show ?thesis
  proof (cases res)
    case (Inl err)
    with assms cl have eq: "rc = Some err" "i' = i1" "tr' = tr1" by (simp_all add: Connect_def)
    have k: "\<exists>s. err = ConfigError s \<or> err = ClientError s" using fr(3) Inl by blast
    have "i' = i\<lparr>UDPPayload := UDPPayload i', conns := conns i'\<rparr>" "conns i' = conns i"
      "UDPPayload i' = p"
      by (simp_all add: eq(2) fr(1))
    then show ?thesis using eq(1,3) evs fr(2) k by (intro exI[of _ evs]) simp
  next
    case (Inr cs)
    with assms cl have eq: "rc = None" "i' = i1\<lparr>conns := cs\<rparr>" "tr' = tr1 @ [EvRandSeed]"
      by (simp_all add: Connect_def)
    have "tr' = tr @ (evs @ [EvRandSeed])" using eq evs by simp
    moreover have "write_attempts (evs @ [EvRandSeed]) = []" "reseeds (evs @ [EvRandSeed]) = 1"
      using evs by (simp_all add: write_attempts_append reseeds_append)
    moreover have "i' = i\<lparr>UDPPayload := UDPPayload i', conns := conns i'\<rparr>" "UDPPayload i' = p"
      by (simp_all add: eq(2) fr(1))
    ultimately show ?thesis using eq(1) fr(2) by (intro exI[of _ "evs @ [EvRandSeed]"]) simp
  qed
qed

lemma Write_cases [consumes 1, case_names connect_failed batch_failed encoding_failed dispatched]:
  assumes "Write e i ms tr = (r, i', tr')"
  obtains
    (connect_failed) err where
      "conns i = []" "Connect e i tr = (Some err, i', tr')" "r = Some err"
  | (batch_failed) s tr1 where
      "conns i = [] \<and> Connect e i tr = (None, i', tr1) \<or> conns i \<noteq> [] \<and> i' = i \<and> tr1 = tr"
      "batch_points_error e (batch_config i') = Some s"
      "r = Some (BatchConfigError s)" "tr' = tr1"
  | (encoding_failed) s tr1 where
      "conns i = [] \<and> Connect e i tr = (None, i', tr1) \<or> conns i \<noteq> [] \<and> i' = i \<and> tr1 = tr"
      "batch_points_error e (batch_config i') = None"
      "add_points e ms (Batch (batch_config i') []) tr1 = (Inl s, tr')"
      "r = Some (EncodingError s)"
  | (dispatched) bp tr1 tr2 where
      "conns i = [] \<and> Connect e i tr = (None, i', tr1) \<or> conns i \<noteq> [] \<and> i' = i \<and> tr1 = tr"
      "batch_points_error e (batch_config i') = None"
      "add_points e ms (Batch (batch_config i') []) tr1 = (Inr bp, tr2)"
      "write_loop e i' bp (rand_perm e (length (conns i'))) tr2 = (r, tr')"
proof -
  obtain rc i1 tr1 where
    en: "(if length (conns i) = 0 then Connect e i tr else (None, i, tr)) = (rc, i1, tr1)"
    by (cases "if length (conns i) = 0 then Connect e i tr else (None, i, tr)") auto
  show ?thesis
  proof (cases rc)
    case (Some err)
    with en assms have "conns i = []" "Connect e i tr = (Some err, i', tr')" "r = Some err"
      by (auto simp: Write_def split: if_splits)
    then show ?thesis by (rule connect_failed)
  next
    case None
    with en have entry:
      "conns i = [] \<and> Connect e i tr = (None, i1, tr1) \<or> conns i \<noteq> [] \<and> i1 = i \<and> tr1 = tr"
      by (auto split: if_splits)
    show ?thesis
    proof (cases "batch_points_error e (batch_config i1)")
      case (Some s)
      with en None assms have "i' = i1" "r = Some (BatchConfigError s)" "tr' = tr1"
        by (simp_all add: Write_def NewBatchPoints_def)
      with entry Some show ?thesis by (intro batch_failed[of tr1 s]) simp_all
    next
      case bok: None
      obtain ra tr2 where ap: "add_points e ms (Batch (batch_config i1) []) tr1 = (ra, tr2)"
        by (cases "add_points e ms (Batch (batch_config i1) []) tr1") auto
      show ?thesis
      proof (cases ra)
        case (Inl s)
        with en None bok ap assms have "i' = i1" "r = Some (EncodingError s)" "tr' = tr2"
          by (simp_all add: Write_def NewBatchPoints_def)
        with entry bok ap Inl show ?thesis by (intro encoding_failed[of tr1 s]) simp_all
      next
        case (Inr bp)
        with en None bok ap assms have "i' = i1"
          "write_loop e i1 bp (rand_perm e (length (conns i1))) tr2 = (r, tr')"
          by (auto simp: Write_def NewBatchPoints_def split: prod.splits)
        with entry bok ap Inr show ?thesis by (intro dispatched[of tr1 bp tr2]) simp_all
      qed
    qed
  qed
qed

lemma quiet_reads:
  assumes "write_attempts q = []"
  shows "write_attempts (q @ evs) = write_attempts evs"
    and "deliveries (q @ evs) = deliveries evs"
    and "stops_at_success (q @ evs) = stops_at_success evs"
    and "failures_logged (q @ evs) = failures_logged evs"
    and "deliveries q = []" and "stops_at_success q" and "failures_logged q"
  using assms stops_at_success_append[of q "[]"] failures_logged_append[of q "[]"]
  by (simp_all add: write_attempts_append deliveries_append deliveries_quiet
      stops_at_success_append failures_logged_append)

lemma entry_shape:
  assumes "conns i = [] \<and> Connect e i tr = (None, i', tr1) \<or> conns i \<noteq> [] \<and> i' = i \<and> tr1 = tr"
  shows "\<exists>cev. tr1 = tr @ cev \<and> write_attempts cev = [] \<and>
           reseeds cev = (if conns i = [] then 1 else 0)"
proof (cases "conns i = []")
  case True
  with assms have "Connect e i tr = (None, i', tr1)" by simp
  from Connect_shape[OF this] True show ?thesis by auto
next
  case False
  with assms show ?thesis by simp
qed

lemma Write_shape:
  assumes "Write e i ms tr = (r, i', tr')"
  shows "\<exists>evs. tr' = tr @ evs \<and>
           prefix (write_attempts evs) (rand_perm e (length (conns i'))) \<and>
           stops_at_success evs \<and> length (deliveries evs) \<le> 1 \<and>
           (r = None) = (deliveries evs \<noteq> []) \<and>
           (r = None \<longrightarrow> deliveries evs = [last (write_attempts evs)]) \<and>
           (r = Some PoolExhausted \<longrightarrow> write_attempts evs = rand_perm e (length (conns i'))) \<and>
           (r = Some IndexOutOfRange \<longrightarrow>
              \<not> (\<forall>n\<in>set (rand_perm e (length (conns i'))). n < length (conns i'))) \<and>
           failures_logged evs \<and> reseeds evs \<le> 1"
  using assms
proof (cases rule: Write_cases)
  case (connect_failed err)
  from Connect_shape[OF connect_failed(2)] obtain evs where
    "tr' = tr @ evs" "write_attempts evs = []" "reseeds evs = 0"
    "\<exists>s. err = ConfigError s \<or> err = ClientError s"
    by auto
  then show ?thesis using connect_failed(3) quiet_reads(5-7)[of evs]
    by (intro exI[of _ evs]) auto
next
  case (batch_failed s tr1)
  from entry_shape[OF batch_failed(1)] obtain evs where
    "tr1 = tr @ evs" "write_attempts evs = []" "reseeds evs \<le> 1"
    by auto
  then show ?thesis using batch_failed(3,4) quiet_reads(5-7)[of evs]
    by (intro exI[of _ evs]) auto
next
  case (encoding_failed s tr1)
  from entry_shape[OF encoding_failed(1)] obtain cev where
    c: "tr1 = tr @ cev" "write_attempts cev = []" "reseeds cev \<le> 1"
    by auto
  from add_points_shape[OF encoding_failed(3)] obtain eev where
    a: "tr' = tr1 @ eev" "write_attempts eev = []" "reseeds eev = 0"
    by auto
  have "tr' = tr @ (cev @ eev)" "write_attempts (cev @ eev) = []" "reseeds (cev @ eev) \<le> 1"
    using c a by (simp_all add: write_attempts_append reseeds_append)
  then show ?thesis using encoding_failed(4) quiet_reads(5-7)[of "cev @ eev"]
    by (intro exI[of _ "cev @ eev"]) auto
next
  case (dispatched bp tr1 tr2)
  from entry_shape[OF dispatched(1)] obtain cev where
    c: "tr1 = tr @ cev" "write_attempts cev = []" "reseeds cev \<le> 1"
    by auto
  from add_points_shape[OF dispatched(3)] obtain eev where
    a: "tr2 = tr1 @ eev" "write_attempts eev = []" "reseeds eev = 0"
    by auto
  define q where "q = cev @ eev"
  have q: "tr2 = tr @ q" "write_attempts q = []" "reseeds q \<le> 1"
    using c a by (simp_all add: q_def write_attempts_append reseeds_append)
  define p where "p = rand_perm e (length (conns i'))"
  from write_loop_shape[OF dispatched(4)] obtain dev where d: "tr' = tr2 @ dev"
    "prefix (write_attempts dev) p" "stops_at_success dev"
    "length (deliveries dev) \<le> 1" "(r = None) = (deliveries dev \<noteq> [])"
    "r = Some PoolExhausted \<longrightarrow> write_attempts dev = p"
    "r = None \<longrightarrow> deliveries dev = [last (write_attempts dev)]"
    "r = Some IndexOutOfRange \<longrightarrow> \<not> (\<forall>n\<in>set p. n < length (conns i'))"
    "failures_logged dev" "reseeds dev = 0"
    unfolding p_def by blast
  note rd = quiet_reads(1-4)[OF q(2), of dev]
  have A: "tr' = tr @ (q @ dev)" using d(1) q(1) by simp
  have B: "prefix (write_attempts (q @ dev)) p" using d(2) by (simp add: rd)
  have C: "stops_at_success (q @ dev)" using d(3) by (simp add: rd)
  have D: "length (deliveries (q @ dev)) \<le> 1" using d(4) by (simp add: rd)
  have E: "(r = None) = (deliveries (q @ dev) \<noteq> [])" using d(5) by (simp add: rd)
  have F: "r = None \<longrightarrow> deliveries (q @ dev) = [last (write_attempts (q @ dev))]"
    using d(7) by (simp add: rd)
  have G: "r = Some PoolExhausted \<longrightarrow> write_attempts (q @ dev) = p" using d(6) by (simp add: rd)
  have J: "failures_logged (q @ dev)" using d(9) by (simp add: rd)
  have K: "reseeds (q @ dev) \<le> 1" using d(10) q(3) by (simp add: reseeds_append)
  show ?thesis using A B C D E F G d(8) J K unfolding p_def by blast
qed

lemmas run_defs = Write_def Connect_def NewBatchPoints_def NewPoint_def NewUDPClient_def
  NewHTTPClient_def createDatabase_def batch_config_def config_urls_def Let_def
  healthy_world_def settings_def field_check_def parse_host_def cpu_metric_def fieldless_metric_def
  sublist_code

lemma upt2: "[0..<2] = [0, 1]"
  by (simp add: upt_rec)

lemma Connect_built:
  assumes "Connect e i tr = (None, i', tr')"
  shows "\<exists>evs. tr' = tr @ evs @ [EvRandSeed] \<and>
     schema_requests evs =
       map (\<lambda>u. (HTTPClient (http_config i u), create_command (Database i)))
         (filter (\<lambda>u. \<not> prefix ''udp'' u) (config_urls i)) \<and>
     filter is_stream (conns i') = accepted evs \<and>
     request_failures_logged evs \<and>
     length (filter (\<lambda>c. \<not> is_stream c) (conns i')) =
       length (filter (prefix ''udp'') (config_urls i)) \<and>
     (\<forall>cfg. UDPClient cfg \<in> set (conns i') \<longrightarrow> udp_PayloadSize cfg = payload_used e i) \<and>
     UDPPayload i' =
       (if \<exists>u\<in>set (config_urls i). prefix ''udp'' u then payload_used e i else UDPPayload i)"
proof -
  obtain res i1 tr1 where cl: "connect_loop e (config_urls i) i [] tr = (res, i1, tr1)"
    by (cases "connect_loop e (config_urls i) i [] tr") auto
  with assms obtain cs where res: "res = Inr cs" and eq: "i' = i1\<lparr>conns := cs\<rparr>"
    "tr' = tr1 @ [EvRandSeed]"
    by (cases res) (simp_all add: Connect_def)
  from connect_loop_built[OF cl[unfolded res]] obtain evs where "tr1 = tr @ evs"
    "schema_requests evs =
       map (\<lambda>u. (HTTPClient (http_config i u), create_command (Database i)))
         (filter (\<lambda>u. \<not> prefix ''udp'' u) (config_urls i))"
    "filter is_stream cs = filter is_stream [] @ accepted evs"
    "request_failures_logged evs"
    "length (filter (\<lambda>c. \<not> is_stream c) cs) =
       length (filter (\<lambda>c. \<not> is_stream c) []) + length (filter (prefix ''udp'') (config_urls i))"
    "\<forall>cfg. UDPClient cfg \<in> set cs \<longrightarrow> UDPClient cfg \<in> set [] \<or> udp_PayloadSize cfg = payload_used e i"
    "UDPPayload i1 =
       (if \<exists>u\<in>set (config_urls i). prefix ''udp'' u then payload_used e i else UDPPayload i)"
    by blast
  then show ?thesis using eq by (intro exI[of _ evs]) simp
qed

lemma add_points_all_ok:
  assumes "\<forall>m\<in>set ms. point_error e m = None"
  shows "\<exists>bp' eev. add_points e ms bp tr = (Inr bp', tr @ eev) \<and> contacts eev = [] \<and>
           write_attempts eev = [] \<and> reseeds eev = 0"
proof -
  obtain ra tr2 where ap: "add_points e ms bp tr = (ra, tr2)"
    by (cases "add_points e ms bp tr") auto
  from add_points_shape[OF ap] assms show ?thesis
    unfolding ap by (cases ra) auto
qed

lemma connect_loop_runs:
  assumes "\<forall>u\<in>set us. \<not> aborts e i u"
  shows "\<exists>cs' i' tr'. connect_loop e us i cs tr = (Inr cs', i', tr')"
proof -
  obtain res i' tr' where cl: "connect_loop e us i cs tr = (res, i', tr')"
    by (cases "connect_loop e us i cs tr") auto
  with connect_loop_aborts_iff[of e us i cs tr] assms show ?thesis
    by (cases res) auto
qed

lemma connect_loop_udp_payload:
  assumes "prefix ''udp'' u" and "url_parse e u = Inr host"
    and "connect_loop e (u # us) i cs tr = (res, i', tr')"
  shows "UDPPayload i' = payload_used e i"
proof (cases "udp_client_error e (UDPConfig host (payload_used e i))")
  case None
  from connect_loop_udp_step[OF assms(1,2) None] assms(3)
  have "connect_loop e us (i\<lparr>UDPPayload := payload_used e i\<rparr>)
          (cs @ [UDPClient (UDPConfig host (payload_used e i))]) tr = (res, i', tr')"
    by simp
  from connect_loop_frame[OF this] show ?thesis
    by (auto simp: payload_used_def split: if_splits)
next
  case (Some y)
  then have "connect_loop e (u # us) i cs tr =
      (Inl (ClientError y), i\<lparr>UDPPayload := payload_used e i\<rparr>, tr)"
    using assms(1,2)
    by (cases "UDPPayload i = 0") (simp_all add: NewUDPClient_def payload_used_def)
  with assms(3) show ?thesis by auto
qed

lemma connect_loop_keeps:
  assumes "connect_loop e us i cs tr = (res, i', tr')"
  shows "payload_used e i' = payload_used e i" and "conns i' = conns i"
    and "aborts e i' u = aborts e i u"
proof -
  define p where "p = UDPPayload i'"
  from connect_loop_frame[OF assms] have fr: "i' = i\<lparr>UDPPayload := p\<rparr>"
    "p = UDPPayload i \<or> UDPPayload i = 0 \<and> p = UDPPayloadSize e"
    unfolding p_def by blast+
  show pu: "payload_used e i' = payload_used e i"
    using fr(2) by (auto simp: fr(1) payload_used_def)
  show "conns i' = conns i" by (simp add: fr(1))
  have "http_config i' u = http_config i u" by (simp add: fr(1))
  then show "aborts e i' u = aborts e i u" by (simp add: aborts_def pu split: sum.splits)
qed

section \<open>The claims\<close>

subsection \<open>C1: one call delivers the batch at most once\<close>

text \<open>
  Claim C1. One call of \<open>Write\<close> walks the permutation \<^verbatim>\<open>rand.Perm(len(i.conns))\<close> in
  order and stops at the first connection whose write succeeds: the connections written
  to are a prefix of the permutation, no connection is written to twice, at most as many
  writes are attempted as the pool has connections, at most one of them succeeds, a
  successful write is the last event of the call, and the call reports success exactly
  when there was one. The list \<open>evs\<close> holds the events of this call.
\<close>

theorem write_delivers_at_most_once:
  assumes "Write e i ms tr = (r, i', tr')"
    and "permutation_of (rand_perm e (length (conns i'))) (length (conns i'))"
  shows "\<exists>evs. tr' = tr @ evs \<and>
           prefix (write_attempts evs) (rand_perm e (length (conns i'))) \<and>
           distinct (write_attempts evs) \<and>
           length (write_attempts evs) \<le> length (conns i') \<and>
           length (deliveries evs) \<le> 1 \<and>
           stops_at_success evs \<and>
           (r = None) = (deliveries evs \<noteq> []) \<and>
           (r = None \<longrightarrow> deliveries evs = [last (write_attempts evs)])"
proof -
  define p where "p = rand_perm e (length (conns i'))"
  from Write_shape[OF assms(1)] obtain evs where evs: "tr' = tr @ evs"
    "prefix (write_attempts evs) p" "stops_at_success evs" "length (deliveries evs) \<le> 1"
    "(r = None) = (deliveries evs \<noteq> [])"
    "r = None \<longrightarrow> deliveries evs = [last (write_attempts evs)]"
    unfolding p_def by blast
  have dp: "distinct p" and lp: "length p = length (conns i')"
    using assms(2) distinct_card[of p] by (simp_all add: permutation_of_def p_def)
  from evs(2) obtain zs where zs: "p = write_attempts evs @ zs" by (auto simp: prefix_def)
  have "distinct (write_attempts evs)" using dp zs by simp
  moreover have "length (write_attempts evs) \<le> length (conns i')" using lp zs by simp
  ultimately show ?thesis using evs unfolding p_def by blast
qed

theorem write_delivers_at_most_once_witness:
  "Write world_a (settings\<lparr>conns := [conn_a, conn_b]\<rparr>) [cpu_metric] [] =
     (None, settings\<lparr>conns := [conn_a, conn_b]\<rparr>, trace_a) \<and>
   permutation_of (rand_perm world_a 2) 2 \<and>
   write_attempts trace_a = [0, 1] \<and> deliveries trace_a = [1] \<and> stops_at_success trace_a"
proof -
  have run: "Write world_a (settings\<lparr>conns := [conn_a, conn_b]\<rparr>) [cpu_metric] [] =
     (None, settings\<lparr>conns := [conn_a, conn_b]\<rparr>, trace_a)"
    by (simp add: run_defs world_a_def trace_a_def cpu_batch_def conn_a_def conn_b_def
        http_config_def upt2)
  have perm: "permutation_of (rand_perm world_a (length (conns (settings\<lparr>conns := [conn_a, conn_b]\<rparr>))))
     (length (conns (settings\<lparr>conns := [conn_a, conn_b]\<rparr>)))"
    by (auto simp: permutation_of_def world_a_def healthy_world_def)
  from write_delivers_at_most_once[OF run perm] obtain evs where
    "trace_a = [] @ evs" "distinct (write_attempts evs)" "length (deliveries evs) \<le> 1"
    "stops_at_success evs" "(None = (None::error option)) = (deliveries evs \<noteq> [])"
    by blast
  then have "stops_at_success trace_a" by simp
  moreover have "write_attempts trace_a = [0, 1]" "deliveries trace_a = [1]"
    by (simp_all add: trace_a_def)
  moreover have "permutation_of (rand_perm world_a 2) 2" using perm by (simp add: numeral_2_eq_2)
  ultimately show ?thesis using run by simp
qed

subsection \<open>C2: when every write fails\<close>

text \<open>
  Claim C2. When no write of a call succeeds, \<open>Write\<close> does not report success, and every
  failed write is followed in the log by its error. When moreover a write was attempted,
  or the call got as far as the dispatcher with nothing to attempt (the pool is not empty
  or \<open>Connect\<close> rebuilds it without error, \<^verbatim>\<open>NewBatchPoints\<close> succeeds and every record
  encodes), the call returns the one error \<open>PoolExhausted\<close>, after one write to each
  connection of the permutation and none twice.
\<close>

theorem write_fails_when_every_write_fails:
  assumes "Write e i ms tr = (r, i', tr @ evs)"
    and "deliveries evs = []"
    and "permutation_of (rand_perm e (length (conns i'))) (length (conns i'))"
  shows "r \<noteq> None \<and> failures_logged evs \<and>
         (write_attempts evs \<noteq> [] \<or>
          (conns i \<noteq> [] \<or> fst (Connect e i tr) = None) \<and>
          batch_points_error e (batch_config i') = None \<and>
          (\<forall>m\<in>set ms. point_error e m = None) \<longrightarrow>
          r = Some PoolExhausted \<and>
          write_attempts evs = rand_perm e (length (conns i')) \<and>
          distinct (write_attempts evs))"
proof -
  define p where "p = rand_perm e (length (conns i'))"
  define reached where "reached \<longleftrightarrow>
    write_attempts evs \<noteq> [] \<or>
    (conns i \<noteq> [] \<or> fst (Connect e i tr) = None) \<and>
    batch_points_error e (batch_config i') = None \<and> (\<forall>m\<in>set ms. point_error e m = None)"
  from Write_shape[OF assms(1)] obtain evs' where "tr @ evs = tr @ evs'"
    and sh: "(r = None) = (deliveries evs' \<noteq> [])"
      "r = Some PoolExhausted \<longrightarrow> write_attempts evs' = p"
      "r = Some IndexOutOfRange \<longrightarrow> \<not> (\<forall>n\<in>set p. n < length (conns i'))"
      "failures_logged evs'"
    unfolding p_def by blast
  then have same: "evs' = evs" by simp
  have pin: "\<forall>n\<in>set p. n < length (conns i')" and dp: "distinct p"
    using assms(3) by (simp_all add: permutation_of_def p_def)
  have failed: "r \<noteq> None" using sh(1) assms(2) same by simp
  have range: "r \<noteq> Some IndexOutOfRange" using sh(3) pin by blast
  have exhausted: "r = Some PoolExhausted" if reached
    using assms(1)
  proof (cases rule: Write_cases)
    case (connect_failed err)
    from Connect_shape[OF connect_failed(2)] obtain cev where
      "tr @ evs = tr @ cev" "write_attempts cev = []"
      by blast
    then have "write_attempts evs = []" by simp
    with that connect_failed show ?thesis by (simp add: reached_def)
  next
    case (batch_failed s tr1)
    from entry_shape[OF batch_failed(1)] obtain cev where
      "tr1 = tr @ cev" "write_attempts cev = []"
      by blast
    with batch_failed(4) have "write_attempts evs = []" by simp
    with that batch_failed(2) show ?thesis by (simp add: reached_def)
  next
    case (encoding_failed s tr1)
    from entry_shape[OF encoding_failed(1)] obtain cev where
      c: "tr1 = tr @ cev" "write_attempts cev = []"
      by blast
    from add_points_shape[OF encoding_failed(3)] obtain eev where
      a: "tr @ evs = tr1 @ eev" "write_attempts eev = []"
        "\<exists>m'\<in>set ms. point_error e m' = Some s"
      by auto
    have "evs = cev @ eev" using c(1) a(1) by simp
    then have "write_attempts evs = []" using c(2) a(2) by (simp add: write_attempts_append)
    with that a(3) show ?thesis by (auto simp: reached_def)
  next
    case (dispatched bp tr1 tr2)
    from write_loop_shape[OF dispatched(4)] obtain dev where
      "r = None \<or> r = Some PoolExhausted \<or> r = Some IndexOutOfRange"
      by blast
    with failed range show ?thesis by blast
  qed
  have fl: "failures_logged evs" using sh(4) same by simp
  have "reached \<longrightarrow> r = Some PoolExhausted \<and> write_attempts evs = p \<and>
      distinct (write_attempts evs)"
    using exhausted sh(2) same dp by auto
  then show ?thesis using failed fl unfolding reached_def p_def by blast
qed

theorem write_fails_when_every_write_fails_witness:
  "Write world_b (settings\<lparr>conns := [conn_a, conn_b]\<rparr>) [cpu_metric] [] =
     (Some PoolExhausted, settings\<lparr>conns := [conn_a, conn_b]\<rparr>, trace_b) \<and>
   deliveries trace_b = [] \<and> write_attempts trace_b = [0, 1] \<and>
   rand_perm world_b 2 = [0, 1] \<and> failures_logged trace_b"
proof -
  let ?i = "settings\<lparr>conns := [conn_a, conn_b]\<rparr>"
  have run: "Write world_b ?i [cpu_metric] [] = (Some PoolExhausted, ?i, [] @ trace_b)"
    by (simp add: run_defs world_b_def trace_b_def cpu_batch_def conn_a_def conn_b_def
        http_config_def upt2)
  have quiet: "deliveries trace_b = []" by (simp add: trace_b_def)
  have perm: "permutation_of (rand_perm world_b (length (conns ?i))) (length (conns ?i))"
    by (auto simp: permutation_of_def world_b_def healthy_world_def)
  have reach: "conns ?i \<noteq> [] \<or> fst (Connect world_b ?i []) = None" by simp
  have bok: "batch_points_error world_b (batch_config ?i) = None"
    by (simp add: world_b_def healthy_world_def)
  have pok: "\<forall>m\<in>set [cpu_metric]. point_error world_b m = None"
    by (simp add: world_b_def healthy_world_def field_check_def cpu_metric_def)
  from write_fails_when_every_write_fails[OF run quiet perm] reach bok pok
  have "failures_logged trace_b" "write_attempts trace_b = rand_perm world_b (length (conns ?i))"
    by blast+
  moreover have "rand_perm world_b 2 = [0, 1]" by (simp add: world_b_def healthy_world_def upt2)
  ultimately show ?thesis using run quiet by (simp add: numeral_2_eq_2)
qed

subsection \<open>C3: a record that does not encode\<close>




subsection \<open>C4: recovery from a missing database\<close>

text \<open>
  Claim C4, as amended. When the write to candidate \<open>n\<close> fails with an error whose text
  contains \<^verbatim>\<open>database not found\<close>, the dispatcher logs the failure, sends the schema request
  \<^verbatim>\<open>CREATE DATABASE\<close> to that same connection, logs the error of that request when it has
  one and logs nothing when it has none, and goes on with the candidates after \<open>n\<close>; the
  connection \<open>n\<close> is not written to again in this call.
\<close>

theorem schema_missing_recovery:
  assumes "n < length (conns i)"
    and "write_error e (conns i ! n) bp tr = Some err"
    and "sublist ''database not found'' err"
    and "n \<notin> set ns"
  shows "let c = conns i ! n;
             tr2 = tr @ [EvWrite n c bp (Some err), EvLogError ''InfluxDB Write'' err];
             q = query_error e c (create_command (Database i)) tr2;
             tr3 = tr2 @ [EvQuery c (create_command (Database i)) q] @
                     (case q of None \<Rightarrow> []
                      | Some errc \<Rightarrow> [EvLogError (recreate_failed (Database i)) errc])
         in write_loop e i bp (n # ns) tr = write_loop e i bp ns tr3 \<and>
            (\<exists>rest. snd (write_loop e i bp ns tr3) = tr3 @ rest \<and>
               n \<notin> set (write_attempts rest))"
proof -
  define tr3 where "tr3 = tr @ failure_events e i bp n err tr"
  have step: "write_loop e i bp (n # ns) tr = write_loop e i bp ns tr3"
    unfolding tr3_def using assms(1,2) by (rule write_loop_step)
  obtain r tr' where run: "write_loop e i bp ns tr3 = (r, tr')"
    by (cases "write_loop e i bp ns tr3") auto
  from write_loop_shape[OF run] obtain rest where
    rest: "tr' = tr3 @ rest" "prefix (write_attempts rest) ns"
    by blast
  have "n \<notin> set (write_attempts rest)" using rest(2) assms(4) set_mono_prefix by blast
  then have "\<exists>rest. snd (write_loop e i bp ns tr3) = tr3 @ rest \<and> n \<notin> set (write_attempts rest)"
    using run rest(1) by auto
  then show ?thesis using step assms(3)
    by (simp add: tr3_def failure_events_def Let_def)
qed

theorem schema_missing_recovery_witness:
  "0 < length (conns (settings\<lparr>conns := [conn_a, conn_b]\<rparr>)) \<and>
   write_error world_a conn_a cpu_batch [] = Some ''database not found'' \<and>
   sublist ''database not found'' ''database not found'' \<and>
   0 \<notin> set [Suc 0] \<and>
   write_loop world_a (settings\<lparr>conns := [conn_a, conn_b]\<rparr>) cpu_batch [0, Suc 0] [] =
     write_loop world_a (settings\<lparr>conns := [conn_a, conn_b]\<rparr>) cpu_batch [Suc 0]
       [EvWrite 0 conn_a cpu_batch (Some ''database not found''),
        EvLogError ''InfluxDB Write'' ''database not found'',
        EvQuery conn_a (create_command ''telegraf'') None]"
proof -
  let ?i = "settings\<lparr>conns := [conn_a, conn_b]\<rparr>"
  have a: "0 < length (conns ?i)" by simp
  have b: "write_error world_a (conns ?i ! 0) cpu_batch [] = Some ''database not found''"
    by (simp add: world_a_def)
  have c: "sublist ''database not found'' ''database not found''" by simp
  have d: "0 \<notin> set [Suc 0]" by simp
  have q: "query_error world_a conn_a cmd h = None" for cmd h
    by (simp add: world_a_def healthy_world_def)
  have db: "Database ?i = ''telegraf''" by (simp add: settings_def)
  from schema_missing_recovery[OF a b c d]
  have "write_loop world_a ?i cpu_batch [0, Suc 0] [] =
     write_loop world_a ?i cpu_batch [Suc 0]
       [EvWrite 0 conn_a cpu_batch (Some ''database not found''),
        EvLogError ''InfluxDB Write'' ''database not found'',
        EvQuery conn_a (create_command ''telegraf'') None]"
    by (simp add: Let_def q db del: write_loop.simps)
  then show ?thesis using a b c d by (simp del: write_loop.simps)
qed

text \<open>
  The claim as the specification states it fails when the schema request succeeds: the
  request is the last event of the call, and no entry of the log follows it.
\<close>

theorem ensure_success_not_logged:
  "Write world_c (settings\<lparr>conns := [conn_a]\<rparr>) [cpu_metric] [] =
     (Some PoolExhausted, settings\<lparr>conns := [conn_a]\<rparr>, trace_c) \<and>
   \<not> ensure_outcome_logged trace_c"
  by (simp add: run_defs world_c_def trace_c_def cpu_batch_def conn_a_def http_config_def)

subsection \<open>C5: a URL that does not parse\<close>

text \<open>
  Claim C5, as amended. Let \<open>u\<close> be the first URL of the configuration that aborts the
  build: a datagram URL that \<^verbatim>\<open>url.Parse\<close> rejects, or a URL whose client cannot be
  constructed. Then \<open>Connect\<close> fails, with the \<open>ConfigError\<close> of \<^verbatim>\<open>url.Parse\<close> when \<open>u\<close> is an
  unparsable datagram URL, and the whole build is given up: the pool is left as it
  was before the call, and schema requests have gone to the stream endpoints before \<open>u\<close>
  only, so no endpoint after \<open>u\<close> is built or contacted.
\<close>

theorem unparsable_url_aborts_build:
  assumes "config_urls i = pre @ u # post"
    and "\<forall>v\<in>set pre. \<not> aborts e i v"
    and "aborts e i u"
  shows "\<exists>err i' evs. Connect e i tr = (Some err, i', tr @ evs) \<and>
     conns i' = conns i \<and>
     schema_requests evs =
       map (\<lambda>v. (HTTPClient (http_config i v), create_command (Database i)))
         (filter (\<lambda>v. \<not> prefix ''udp'' v) pre) \<and>
     (\<forall>s. prefix ''udp'' u \<and> url_parse e u = Inl s \<longrightarrow> err = ConfigError s)"
proof -
  from connect_loop_runs[OF assms(2), of "[]" tr] obtain cs1 i1 tr1 where
    p: "connect_loop e pre i [] tr = (Inr cs1, i1, tr1)"
    by blast
  from connect_loop_built[OF p] obtain evs where evs: "tr1 = tr @ evs"
    "schema_requests evs =
       map (\<lambda>v. (HTTPClient (http_config i v), create_command (Database i)))
         (filter (\<lambda>v. \<not> prefix ''udp'' v) pre)"
    by blast
  have "aborts e i1 u" using assms(3) by (simp add: connect_loop_keeps(3)[OF p])
  from connect_loop_abort[OF this, of cs1 tr1] obtain err i2 where
    ab: "connect_loop e (u # post) i1 cs1 tr1 = (Inl err, i2, tr1)"
    by blast
  have "connect_loop e (config_urls i) i [] tr = (Inl err, i2, tr1)"
    by (simp add: assms(1) connect_loop_append p ab(1) del: connect_loop.simps)
  then have c: "Connect e i tr = (Some err, i2, tr @ evs)"
    by (simp add: Connect_def evs(1))
  have k: "conns i2 = conns i"
    by (simp add: connect_loop_keeps(2)[OF ab(1)] connect_loop_keeps(2)[OF p])
  have "err = ConfigError s" if "prefix ''udp'' u" "url_parse e u = Inl s" for s
    using ab(1) that by simp
  then show ?thesis using c k evs(2) by blast
qed

theorem unparsable_url_aborts_build_witness:
  "config_urls settings_late_unparsable = [''http://a:8086''] @ ''udp://[::1'' # [''http://b:8086''] \<and>
   \<not> aborts healthy_world settings_late_unparsable ''http://a:8086'' \<and>
   aborts healthy_world settings_late_unparsable ''udp://[::1'' \<and>
   Connect healthy_world settings_late_unparsable [] =
     (Some (ConfigError ''missing ] in host''), settings_late_unparsable,
      [EvQuery conn_a (create_command ''telegraf'') None]) \<and>
   conns settings_late_unparsable = []"
proof -
  let ?i = "settings_late_unparsable"
  have a: "config_urls ?i = [''http://a:8086''] @ ''udp://[::1'' # [''http://b:8086'']"
    by (simp add: config_urls_def settings_late_unparsable_def settings_def)
  have b': "\<not> aborts healthy_world ?i ''http://a:8086''"
    by (simp add: aborts_def healthy_world_def)
  then have b: "\<forall>v\<in>set [''http://a:8086'']. \<not> aborts healthy_world ?i v" by simp
  have c: "aborts healthy_world ?i ''udp://[::1''"
    by (simp add: aborts_def healthy_world_def parse_host_def)
  have p: "prefix ''udp'' ''udp://[::1'' \<and>
      url_parse healthy_world ''udp://[::1'' = Inl ''missing ] in host''"
    by (simp add: healthy_world_def parse_host_def)
  from unparsable_url_aborts_build[OF a b c, of "[]"] p obtain i' evs where
    r: "Connect healthy_world ?i [] = (Some (ConfigError ''missing ] in host''), i', [] @ evs)"
      "conns i' = conns ?i"
    by blast
  have "Connect healthy_world ?i [] =
     (Some (ConfigError ''missing ] in host''), ?i,
      [EvQuery conn_a (create_command ''telegraf'') None])"
    by (simp add: run_defs settings_late_unparsable_def conn_a_def http_config_def)
  moreover have "conns ?i = []" by (simp add: settings_late_unparsable_def settings_def)
  ultimately show ?thesis using a b' c r by simp
qed

text \<open>
  The claim as the specification states it fails: with an unparsable datagram URL before
  \<^verbatim>\<open>http://a:8086\<close>, \<open>Connect\<close> returns the error and the pool stays empty, with no request
  sent, although \<^verbatim>\<open>http://a:8086\<close> alone is built.
\<close>

theorem unparsable_url_loses_remaining_endpoints:
  "Connect healthy_world settings_unparsable [] =
     (Some (ConfigError ''missing ] in host''), settings_unparsable, []) \<and>
   conns settings_unparsable = [] \<and>
   config_urls settings_unparsable = [''udp://[::1'', ''http://a:8086''] \<and>
   Connect healthy_world settings_http [] =
     (None, settings_http\<lparr>conns := [conn_a]\<rparr>,
      [EvQuery conn_a (create_command ''telegraf'') None, EvRandSeed])"
  by (simp add: run_defs settings_unparsable_def settings_http_def conn_a_def http_config_def)

subsection \<open>C6: a call on an empty pool\<close>

text \<open>
  Claim C6, as amended. A \<open>Write\<close> on an empty pool runs \<open>Connect\<close> once. When \<open>Connect\<close>
  returns an error, \<open>Write\<close> returns that same error (an error of \<^verbatim>\<open>url.Parse\<close> or of a client
  constructor, never \<open>PoolExhausted\<close>) with the state and the trace of \<open>Connect\<close>, and does
  nothing else. When \<open>Connect\<close> succeeds and the rebuilt pool is not empty, the call goes
  on as a \<open>Write\<close> on the rebuilt pool. When \<open>Connect\<close> succeeds with an empty pool and the
  batch encodes, the call contacts no connection and returns \<open>PoolExhausted\<close>. In every
  case the random source is seeded once if \<open>Connect\<close> succeeded and not at all otherwise.
\<close>

theorem write_on_empty_pool:
  assumes "conns i = []"
    and "Connect e i tr = (rc, i1, tr1)"
  shows "(\<forall>err. rc = Some err \<longrightarrow>
            Write e i ms tr = (Some err, i1, tr1) \<and>
            (\<exists>s. err = ConfigError s \<or> err = ClientError s)) \<and>
         (rc = None \<and> conns i1 \<noteq> [] \<longrightarrow> Write e i ms tr = Write e i1 ms tr1) \<and>
         (rc = None \<and> conns i1 = [] \<and> rand_perm e 0 = [] \<and>
          batch_points_error e (batch_config i1) = None \<and>
          (\<forall>m\<in>set ms. point_error e m = None) \<longrightarrow>
            (\<exists>eev. Write e i ms tr = (Some PoolExhausted, i1, tr1 @ eev) \<and> contacts eev = [])) \<and>
         (\<exists>r evs. Write e i ms tr = (r, i1, tr @ evs) \<and>
            reseeds evs = (if rc = None then 1 else 0))"
proof -
  from Connect_shape[OF assms(2)] obtain cev where cev: "tr1 = tr @ cev"
    "reseeds cev = (if rc = None then 1 else 0)"
    "\<forall>err. rc = Some err \<longrightarrow> (\<exists>s. err = ConfigError s \<or> err = ClientError s)"
    by blast
  have A: "\<forall>err. rc = Some err \<longrightarrow>
            Write e i ms tr = (Some err, i1, tr1) \<and>
            (\<exists>s. err = ConfigError s \<or> err = ClientError s)"
    using assms cev(3) by (simp add: Write_def)
  have B: "rc = None \<and> conns i1 \<noteq> [] \<longrightarrow> Write e i ms tr = Write e i1 ms tr1"
    using assms by (simp add: Write_def)
  have C: "rc = None \<and> conns i1 = [] \<and> rand_perm e 0 = [] \<and>
          batch_points_error e (batch_config i1) = None \<and>
          (\<forall>m\<in>set ms. point_error e m = None) \<longrightarrow>
            (\<exists>eev. Write e i ms tr = (Some PoolExhausted, i1, tr1 @ eev) \<and> contacts eev = [])"
  proof (intro impI, elim conjE)
    assume h: "rc = None" "conns i1 = []" "rand_perm e 0 = []"
      "batch_points_error e (batch_config i1) = None" "\<forall>m\<in>set ms. point_error e m = None"
    from add_points_all_ok[OF h(5), of "Batch (batch_config i1) []" tr1] obtain bp' eev where
      ap: "add_points e ms (Batch (batch_config i1) []) tr1 = (Inr bp', tr1 @ eev)"
        "contacts eev = []"
      by blast
    have "Write e i ms tr = (Some PoolExhausted, i1, tr1 @ eev)"
      using assms h(1-4) ap(1) by (simp add: Write_def NewBatchPoints_def)
    with ap(2) show "\<exists>eev. Write e i ms tr = (Some PoolExhausted, i1, tr1 @ eev) \<and> contacts eev = []"
      by blast
  qed
  obtain r i' tr' where run: "Write e i ms tr = (r, i', tr')"
    by (cases "Write e i ms tr") auto
  have D: "\<exists>r evs. Write e i ms tr = (r, i1, tr @ evs) \<and>
            reseeds evs = (if rc = None then 1 else 0)"
    using run
  proof (cases rule: Write_cases)
    case (connect_failed err)
    with assms(2) cev(1,2) run show ?thesis by auto
  next
    case (batch_failed s tr1')
    with assms have "rc = None" "i' = i1" "tr' = tr1" by simp_all
    with cev(1,2) run show ?thesis by auto
  next
    case (encoding_failed s tr1')
    with assms have eq: "rc = None" "i' = i1" "tr1' = tr1" by simp_all
    from add_points_shape[OF encoding_failed(3)] obtain eev where
      "tr' = tr1' @ eev" "reseeds eev = 0"
      by blast
    then have "tr' = tr @ (cev @ eev)" "reseeds (cev @ eev) = (if rc = None then 1 else 0)"
      using eq cev(1,2) by (simp_all add: reseeds_append)
    with run eq show ?thesis by blast
  next
    case (dispatched bp tr1' tr2)
    with assms have eq: "rc = None" "i' = i1" "tr1' = tr1" by simp_all
    from add_points_shape[OF dispatched(3)] obtain eev where
      e: "tr2 = tr1' @ eev" "reseeds eev = 0"
      by blast
    from write_loop_shape[OF dispatched(4)] obtain dev where
      d: "tr' = tr2 @ dev" "reseeds dev = 0"
      by blast
    have "tr' = tr @ (cev @ eev @ dev)"
      "reseeds (cev @ eev @ dev) = (if rc = None then 1 else 0)"
      using eq cev(1,2) e d by (simp_all add: reseeds_append)
    with run eq show ?thesis by blast
  qed
  show ?thesis using A B C D by blast
qed

theorem write_on_empty_pool_witness:
  "conns settings_http = [] \<and>
   Connect healthy_world settings_http [] =
     (None, settings_http\<lparr>conns := [conn_a]\<rparr>,
      [EvQuery conn_a (create_command ''telegraf'') None, EvRandSeed]) \<and>
   Write healthy_world settings_http [cpu_metric] [] =
     Write healthy_world (settings_http\<lparr>conns := [conn_a]\<rparr>) [cpu_metric]
       [EvQuery conn_a (create_command ''telegraf'') None, EvRandSeed] \<and>
   Write healthy_world settings_http [cpu_metric] [] =
     (None, settings_http\<lparr>conns := [conn_a]\<rparr>,
      [EvQuery conn_a (create_command ''telegraf'') None, EvRandSeed,
       EvLogDebug cpu_metric, EvLogMetric cpu_metric, EvWrite 0 conn_a cpu_batch None]) \<and>
   conns settings_two_http = [] \<and>
   Connect world_refusing settings_two_http [] =
     (None, settings_two_http,
      [EvQuery conn_a (create_command ''telegraf'') (Some ''connection refused''),
       EvLogPrintln ''Database creation failed: connection refused'',
       EvQuery conn_b (create_command ''telegraf'') (Some ''connection refused''),
       EvLogPrintln ''Database creation failed: connection refused'',
       EvRandSeed]) \<and>
   fst (Write world_refusing settings_two_http [cpu_metric] []) = Some PoolExhausted \<and>
   conns settings_late_unparsable = [] \<and>
   Connect healthy_world settings_late_unparsable [] =
     (Some (ConfigError ''missing ] in host''), settings_late_unparsable,
      [EvQuery conn_a (create_command ''telegraf'') None]) \<and>
   Write healthy_world settings_late_unparsable [cpu_metric] [] =
     (Some (ConfigError ''missing ] in host''), settings_late_unparsable,
      [EvQuery conn_a (create_command ''telegraf'') None])"
proof -
  let ?i1 = "settings_http\<lparr>conns := [conn_a]\<rparr>"
  let ?tr1 = "[EvQuery conn_a (create_command ''telegraf'') None, EvRandSeed]"
  have a: "conns settings_http = []" by (simp add: settings_http_def settings_def)
  have b: "Connect healthy_world settings_http [] = (None, ?i1, ?tr1)"
    by (simp add: run_defs settings_http_def conn_a_def http_config_def)
  have ne: "conns ?i1 \<noteq> []" by simp
  from write_on_empty_pool[OF a b, of "[cpu_metric]"] ne
  have w: "Write healthy_world settings_http [cpu_metric] [] =
      Write healthy_world ?i1 [cpu_metric] ?tr1"
    by blast
  have "Write healthy_world ?i1 [cpu_metric] ?tr1 =
     (None, ?i1, ?tr1 @ [EvLogDebug cpu_metric, EvLogMetric cpu_metric,
        EvWrite 0 conn_a cpu_batch None])"
    by (simp add: run_defs settings_http_def cpu_batch_def upt_rec)
  with w have w2: "Write healthy_world settings_http [cpu_metric] [] =
     (None, ?i1, [EvQuery conn_a (create_command ''telegraf'') None, EvRandSeed,
        EvLogDebug cpu_metric, EvLogMetric cpu_metric, EvWrite 0 conn_a cpu_batch None])"
    by simp
  let ?tr2 = "[EvQuery conn_a (create_command ''telegraf'') (Some ''connection refused''),
       EvLogPrintln ''Database creation failed: connection refused'',
       EvQuery conn_b (create_command ''telegraf'') (Some ''connection refused''),
       EvLogPrintln ''Database creation failed: connection refused'',
       EvRandSeed]"
  have c: "conns settings_two_http = []" by (simp add: settings_two_http_def settings_def)
  have d: "Connect world_refusing settings_two_http [] = (None, settings_two_http, ?tr2)"
    by (simp add: run_defs world_refusing_def settings_two_http_def conn_a_def conn_b_def
        http_config_def)
  have d': "rand_perm world_refusing 0 = [] \<and>
      batch_points_error world_refusing (batch_config settings_two_http) = None \<and>
      (\<forall>m\<in>set [cpu_metric]. point_error world_refusing m = None)"
    by (simp add: world_refusing_def healthy_world_def field_check_def cpu_metric_def)
  from write_on_empty_pool[OF c d, of "[cpu_metric]"] c d'
  have second: "fst (Write world_refusing settings_two_http [cpu_metric] []) = Some PoolExhausted"
    by auto
  let ?tr3 = "[EvQuery conn_a (create_command ''telegraf'') None]"
  have f: "conns settings_late_unparsable = []"
    by (simp add: settings_late_unparsable_def settings_def)
  have g: "Connect healthy_world settings_late_unparsable [] =
     (Some (ConfigError ''missing ] in host''), settings_late_unparsable, ?tr3)"
    by (simp add: run_defs settings_late_unparsable_def conn_a_def http_config_def)
  from write_on_empty_pool[OF f g, of "[cpu_metric]"]
  have third: "Write healthy_world settings_late_unparsable [cpu_metric] [] =
     (Some (ConfigError ''missing ] in host''), settings_late_unparsable, ?tr3)"
    by blast
  show ?thesis by (intro conjI) (rule a b w w2 c d second f g third)+
qed

text \<open>
  The claim as the specification states it fails when \<open>Connect\<close> returns an error: the
  call returns the error of \<^verbatim>\<open>url.Parse\<close>, not \<open>PoolExhausted\<close>.
\<close>

theorem failed_reconnect_returns_connect_error:
  "conns settings_unparsable = [] \<and>
   Connect healthy_world settings_unparsable [] =
     (Some (ConfigError ''missing ] in host''), settings_unparsable, []) \<and>
   Write healthy_world settings_unparsable [cpu_metric] [] =
     (Some (ConfigError ''missing ] in host''), settings_unparsable, []) \<and>
   fst (Write healthy_world settings_unparsable [cpu_metric] []) \<noteq> Some PoolExhausted"
  by (simp add: run_defs settings_unparsable_def)

subsection \<open>C7: the schema request at construction\<close>

text \<open>
  Claim C7. \<open>Connect\<close> returns without error exactly when no URL aborts the build (every
  datagram URL parses and every client is constructed), whatever the schema requests
  answer. It sends one \<^verbatim>\<open>CREATE DATABASE\<close> request to the connection of every stream URL it
  builds (the stream URLs before the first URL that aborts), in the order of the
  configuration; a request that fails is followed in the log by
  \<^verbatim>\<open>Database creation failed\<close> and its connection is left out: the stream connections of
  the new pool are the connections whose request succeeded. So when there are only
  stream URLs and every request fails, \<open>Connect\<close> succeeds with an empty pool.
\<close>

theorem stream_schema_request_at_construction:
  "\<exists>rc i' evs.
     Connect e i tr = (rc, i', tr @ evs @ (if rc = None then [EvRandSeed] else [])) \<and>
     (rc = None \<longleftrightarrow> (\<forall>u\<in>set (config_urls i). \<not> aborts e i u)) \<and>
     schema_requests evs =
       map (\<lambda>u. (HTTPClient (http_config i u), create_command (Database i)))
         (filter (\<lambda>u. \<not> prefix ''udp'' u)
            (takeWhile (\<lambda>u. \<not> aborts e i u) (config_urls i))) \<and>
     request_failures_logged evs \<and>
     (rc = None \<longrightarrow>
        filter is_stream (conns i') = accepted evs \<and>
        (accepted evs = [] \<and> (\<forall>u\<in>set (config_urls i). \<not> prefix ''udp'' u) \<longrightarrow> conns i' = []))"
proof -
  define pre where "pre = takeWhile (\<lambda>u. \<not> aborts e i u) (config_urls i)"
  define rest where "rest = dropWhile (\<lambda>u. \<not> aborts e i u) (config_urls i)"
  have split: "config_urls i = pre @ rest" by (simp add: pre_def rest_def)
  have ok: "\<forall>v\<in>set pre. \<not> aborts e i v" by (auto simp: pre_def dest: set_takeWhileD)
  from connect_loop_runs[OF ok, of "[]" tr] obtain cs1 i1 tr1 where
    p: "connect_loop e pre i [] tr = (Inr cs1, i1, tr1)"
    by blast
  from connect_loop_built[OF p] obtain evs where evs: "tr1 = tr @ evs"
    "schema_requests evs =
       map (\<lambda>v. (HTTPClient (http_config i v), create_command (Database i)))
         (filter (\<lambda>v. \<not> prefix ''udp'' v) pre)"
    "filter is_stream cs1 = filter is_stream [] @ accepted evs"
    "request_failures_logged evs"
    "length (filter (\<lambda>c. \<not> is_stream c) cs1) =
       length (filter (\<lambda>c. \<not> is_stream c) []) + length (filter (prefix ''udp'') pre)"
    by blast
  show ?thesis
  proof (cases rest)
    case Nil
    then have all: "config_urls i = pre" using split by simp
    with ok have none: "\<forall>u\<in>set (config_urls i). \<not> aborts e i u" by simp
    have c: "Connect e i tr = (None, i1\<lparr>conns := cs1\<rparr>, tr @ evs @ [EvRandSeed])"
      using p evs(1) by (simp add: Connect_def all)
    have "cs1 = []"
      if "accepted evs = []" "\<forall>u\<in>set (config_urls i). \<not> prefix ''udp'' u"
    proof -
      have "filter (prefix ''udp'') pre = []" using that(2) all by (simp add: filter_empty_conv)
      with evs(5) have "filter (\<lambda>c. \<not> is_stream c) cs1 = []" by simp
      then have "filter is_stream cs1 = cs1" by (simp add: filter_empty_conv filter_id_conv)
      with evs(3) that(1) show ?thesis by simp
    qed
    then have e: "accepted evs = [] \<and> (\<forall>u\<in>set (config_urls i). \<not> prefix ''udp'' u) \<longrightarrow>
        conns (i1\<lparr>conns := cs1\<rparr>) = []"
      by simp
    have f: "filter is_stream (conns (i1\<lparr>conns := cs1\<rparr>)) = accepted evs"
      using evs(3) by simp
    show ?thesis
      using c none evs(2,4) e f unfolding pre_def[symmetric]
      by (intro exI[of _ None] exI[of _ "i1\<lparr>conns := cs1\<rparr>"] exI[of _ evs]) simp
  next
    case (Cons u post)
    have ab: "aborts e i u"
      using Cons by (simp add: rest_def dropWhile_eq_Cons_conv)
    then have "aborts e i1 u" by (simp add: connect_loop_keeps(3)[OF p])
    from connect_loop_abort[OF this, of cs1 tr1] obtain err i2 where
      q: "connect_loop e (u # post) i1 cs1 tr1 = (Inl err, i2, tr1)"
      by blast
    have "connect_loop e (config_urls i) i [] tr = (Inl err, i2, tr1)"
      by (simp add: split Cons connect_loop_append p q del: connect_loop.simps)
    then have c: "Connect e i tr = (Some err, i2, tr @ evs @ [])"
      by (simp add: Connect_def evs(1))
    have some: "\<not> (\<forall>u\<in>set (config_urls i). \<not> aborts e i u)"
      using ab split Cons by auto
    show ?thesis
      using c some evs(2,4) unfolding pre_def[symmetric]
      by (intro exI[of _ "Some err"] exI[of _ i2] exI[of _ evs]) simp
  qed
qed

theorem stream_schema_request_at_construction_witness:
  "config_urls settings_two_http = [''http://a:8086'', ''http://b:8086''] \<and>
   \<not> aborts world_refusing settings_two_http ''http://a:8086'' \<and>
   \<not> aborts world_refusing settings_two_http ''http://b:8086'' \<and>
   Connect world_refusing settings_two_http [] =
     (None, settings_two_http,
      [EvQuery conn_a (create_command ''telegraf'') (Some ''connection refused''),
       EvLogPrintln ''Database creation failed: connection refused'',
       EvQuery conn_b (create_command ''telegraf'') (Some ''connection refused''),
       EvLogPrintln ''Database creation failed: connection refused'',
       EvRandSeed]) \<and>
   conns settings_two_http = []"
proof -
  have a: "\<forall>u\<in>set (config_urls settings_two_http). \<not> aborts world_refusing settings_two_http u"
    by (simp add: config_urls_def settings_two_http_def settings_def aborts_def world_refusing_def
        healthy_world_def)
  from stream_schema_request_at_construction[of world_refusing settings_two_http "[]"]
  obtain rc i' evs where
    c: "Connect world_refusing settings_two_http [] =
          (rc, i', [] @ evs @ (if rc = None then [EvRandSeed] else []))"
      "(rc = None) =
          (\<forall>u\<in>set (config_urls settings_two_http). \<not> aborts world_refusing settings_two_http u)"
      "rc = None \<longrightarrow>
         filter is_stream (conns i') = accepted evs \<and>
         (accepted evs = [] \<and> (\<forall>u\<in>set (config_urls settings_two_http). \<not> prefix ''udp'' u) \<longrightarrow>
          conns i' = [])"
    by blast
  then have "rc = None" using a by simp
  moreover have "Connect world_refusing settings_two_http [] =
     (None, settings_two_http,
      [EvQuery conn_a (create_command ''telegraf'') (Some ''connection refused''),
       EvLogPrintln ''Database creation failed: connection refused'',
       EvQuery conn_b (create_command ''telegraf'') (Some ''connection refused''),
       EvLogPrintln ''Database creation failed: connection refused'',
       EvRandSeed])"
    by (simp add: run_defs world_refusing_def settings_two_http_def conn_a_def conn_b_def
        http_config_def)
  moreover have "conns settings_two_http = []" by (simp add: settings_two_http_def settings_def)
  moreover have "config_urls settings_two_http = [''http://a:8086'', ''http://b:8086'']"
    by (simp add: config_urls_def settings_two_http_def settings_def)
  ultimately show ?thesis using a by simp
qed

subsection \<open>C9: reconnection comes before encoding\<close>

text \<open>
  Claim C9. With an empty pool, \<open>Connect\<close> runs before the batch is encoded: when it
  succeeds and a record of the batch is then rejected by \<^verbatim>\<open>NewPoint\<close>, \<open>Write\<close> returns the
  encoding error, and yet the trace of the call starts with the trace of \<open>Connect\<close> (one
  schema request to every stream endpoint of the configuration) and the state left
  behind is the state of \<open>Connect\<close>, with the rebuilt pool.
\<close>

theorem reconnect_precedes_encoding:
  assumes "conns i = []"
    and "Connect e i tr = (None, i1, tr1)"
    and "batch_points_error e (batch_config i1) = None"
    and "m \<in> set ms"
    and "point_error e m \<noteq> None"
  shows "\<exists>s cev eev. Write e i ms tr = (Some (EncodingError s), i1, tr @ cev @ [EvRandSeed] @ eev) \<and>
           tr1 = tr @ cev @ [EvRandSeed] \<and>
           map fst (schema_requests cev) =
             map (\<lambda>u. HTTPClient (http_config i u))
               (filter (\<lambda>u. \<not> prefix ''udp'' u) (config_urls i)) \<and>
           filter is_stream (conns i1) = accepted cev \<and>
           contacts eev = []"
proof -
  from Connect_built[OF assms(2)] obtain cev where cev: "tr1 = tr @ cev @ [EvRandSeed]"
    "schema_requests cev =
       map (\<lambda>u. (HTTPClient (http_config i u), create_command (Database i)))
         (filter (\<lambda>u. \<not> prefix ''udp'' u) (config_urls i))"
    "filter is_stream (conns i1) = accepted cev"
    by blast
  obtain ra tr2 where ap: "add_points e ms (Batch (batch_config i1) []) tr1 = (ra, tr2)"
    by (cases "add_points e ms (Batch (batch_config i1) []) tr1") auto
  from add_points_shape[OF ap] obtain eev where eev: "tr2 = tr1 @ eev" "contacts eev = []"
    and r: "case ra of Inl err \<Rightarrow> \<exists>m\<in>set ms. point_error e m = Some err
            | Inr bp' \<Rightarrow> \<forall>m\<in>set ms. point_error e m = None"
    by blast
  from r assms(4,5) obtain s where s: "ra = Inl s" by (cases ra) auto
  have "Write e i ms tr = (Some (EncodingError s), i1, tr2)"
    using assms(1,2,3) ap s by (simp add: Write_def NewBatchPoints_def)
  moreover have "map fst (schema_requests cev) =
      map (\<lambda>u. HTTPClient (http_config i u)) (filter (\<lambda>u. \<not> prefix ''udp'' u) (config_urls i))"
    by (simp add: cev(2) comp_def)
  ultimately show ?thesis using cev(1,3) eev by auto
qed

theorem reconnect_precedes_encoding_witness:
  "conns settings_udp_http = [] \<and>
   Connect healthy_world settings_udp_http [] =
     (None, settings_udp_http\<lparr>UDPPayload := 512, conns := [conn_udp, conn_a]\<rparr>,
      [EvQuery conn_a (create_command ''telegraf'') None, EvRandSeed]) \<and>
   point_error healthy_world fieldless_metric = Some ''Point without fields is unsupported'' \<and>
   Write healthy_world settings_udp_http [cpu_metric, fieldless_metric] [] =
     (Some (EncodingError ''Point without fields is unsupported''),
      settings_udp_http\<lparr>UDPPayload := 512, conns := [conn_udp, conn_a]\<rparr>,
      [EvQuery conn_a (create_command ''telegraf'') None, EvRandSeed,
       EvLogDebug cpu_metric, EvLogMetric cpu_metric,
       EvLogError ''InfluxDB Write'' ''Point without fields is unsupported''])"
proof -
  let ?i1 = "settings_udp_http\<lparr>UDPPayload := 512, conns := [conn_udp, conn_a]\<rparr>"
  let ?tr1 = "[EvQuery conn_a (create_command ''telegraf'') None, EvRandSeed]"
  have a: "conns settings_udp_http = []" by (simp add: settings_udp_http_def settings_def)
  have b: "Connect healthy_world settings_udp_http [] = (None, ?i1, ?tr1)"
    by (simp add: run_defs settings_udp_http_def conn_udp_def conn_a_def http_config_def)
  have c: "batch_points_error healthy_world (batch_config ?i1) = None"
    by (simp add: healthy_world_def)
  have d: "fieldless_metric \<in> set [cpu_metric, fieldless_metric]" by simp
  have e: "point_error healthy_world fieldless_metric = Some ''Point without fields is unsupported''"
    by (simp add: healthy_world_def field_check_def fieldless_metric_def)
  then have e': "point_error healthy_world fieldless_metric \<noteq> None" by simp
  from reconnect_precedes_encoding[OF a b c d e'] obtain s cev eev where
    w: "Write healthy_world settings_udp_http [cpu_metric, fieldless_metric] [] =
          (Some (EncodingError s), ?i1, [] @ cev @ [EvRandSeed] @ eev)"
    and t: "?tr1 = [] @ cev @ [EvRandSeed]" and q: "contacts eev = []"
    by blast
  have "fst (Write healthy_world settings_udp_http [cpu_metric, fieldless_metric] []) =
      Some (EncodingError ''Point without fields is unsupported'')"
    by (simp add: run_defs settings_udp_http_def)
  with w have s: "s = ''Point without fields is unsupported''" by simp
  have "snd (snd (Write healthy_world settings_udp_http [cpu_metric, fieldless_metric] [])) =
      ?tr1 @ [EvLogDebug cpu_metric, EvLogMetric cpu_metric,
        EvLogError ''InfluxDB Write'' ''Point without fields is unsupported'']"
    by (simp add: run_defs settings_udp_http_def conn_a_def http_config_def)
  with w s have "Write healthy_world settings_udp_http [cpu_metric, fieldless_metric] [] =
     (Some (EncodingError ''Point without fields is unsupported''), ?i1,
      ?tr1 @ [EvLogDebug cpu_metric, EvLogMetric cpu_metric,
        EvLogError ''InfluxDB Write'' ''Point without fields is unsupported''])"
    by simp
  then show ?thesis using a b e by simp
qed

subsection \<open>C10: the default payload size\<close>

text \<open>
  Claim C10, as amended. \<open>Connect\<close> changes no field of the struct but \<^verbatim>\<open>UDPPayload\<close> and
  \<^verbatim>\<open>conns\<close>. A payload size that is set is kept; one that is unset (zero) stays zero or
  becomes \<^verbatim>\<open>client.UDPPayloadSize\<close>, and it does become \<^verbatim>\<open>client.UDPPayloadSize\<close> when
  the build gets as far as a datagram URL that parses (no URL before it aborts the
  build), also when \<open>Connect\<close> fails afterwards. The default then stays in the struct: a
  later \<open>Connect\<close> leaves it, and every datagram connection of a rebuilt pool carries the
  payload size of the struct.
\<close>

theorem connect_defaults_udp_payload:
  assumes "Connect e i tr = (rc, i', tr')"
  shows "i' = i\<lparr>UDPPayload := UDPPayload i', conns := conns i'\<rparr> \<and>
     (UDPPayload i' = UDPPayload i \<or> UDPPayload i = 0 \<and> UDPPayload i' = UDPPayloadSize e) \<and>
     (UDPPayload i = 0 \<and> config_urls i = pre @ u # post \<and> (\<forall>v\<in>set pre. \<not> aborts e i v) \<and>
      prefix ''udp'' u \<and> url_parse e u = Inr host \<longrightarrow> UDPPayload i' = UDPPayloadSize e) \<and>
     (UDPPayload i = UDPPayloadSize e \<longrightarrow> UDPPayload i' = UDPPayloadSize e) \<and>
     (rc = None \<longrightarrow> (\<forall>cfg. UDPClient cfg \<in> set (conns i') \<longrightarrow> udp_PayloadSize cfg = UDPPayload i'))"
proof -
  from Connect_shape[OF assms] have
    A: "i' = i\<lparr>UDPPayload := UDPPayload i', conns := conns i'\<rparr>"
    and B: "UDPPayload i' = UDPPayload i \<or> UDPPayload i = 0 \<and> UDPPayload i' = UDPPayloadSize e"
    by blast+
  have C: "UDPPayload i' = UDPPayloadSize e"
    if h: "UDPPayload i = 0" "config_urls i = pre @ u # post" "\<forall>v\<in>set pre. \<not> aborts e i v"
      "prefix ''udp'' u" "url_parse e u = Inr host"
  proof -
    from connect_loop_runs[OF h(3), of "[]" tr] obtain cs1 i1 tr1 where
      p: "connect_loop e pre i [] tr = (Inr cs1, i1, tr1)"
      by blast
    obtain res i2 tr2 where
      q: "connect_loop e (u # post) i1 cs1 tr1 = (res, i2, tr2)"
      by (cases "connect_loop e (u # post) i1 cs1 tr1") auto
    have "connect_loop e (config_urls i) i [] tr = (res, i2, tr2)"
      by (simp add: h(2) connect_loop_append p q del: connect_loop.simps)
    with assms have "UDPPayload i' = UDPPayload i2"
      by (cases res) (auto simp: Connect_def)
    also have "\<dots> = payload_used e i1" by (rule connect_loop_udp_payload[OF h(4,5) q])
    also have "\<dots> = payload_used e i" by (rule connect_loop_keeps(1)[OF p])
    also have "\<dots> = UDPPayloadSize e" using h(1) by (simp add: payload_used_def)
    finally show ?thesis .
  qed
  have D: "UDPPayload i = UDPPayloadSize e \<longrightarrow> UDPPayload i' = UDPPayloadSize e"
    using B by auto
  have E: "\<forall>cfg. UDPClient cfg \<in> set (conns i') \<longrightarrow> udp_PayloadSize cfg = UDPPayload i'"
    if "rc = None"
  proof (intro allI impI)
    fix cfg assume m: "UDPClient cfg \<in> set (conns i')"
    from Connect_built[OF assms[unfolded that]] have
      n: "length (filter (\<lambda>c. \<not> is_stream c) (conns i')) =
            length (filter (prefix ''udp'') (config_urls i))"
      and s: "\<forall>cfg. UDPClient cfg \<in> set (conns i') \<longrightarrow> udp_PayloadSize cfg = payload_used e i"
      and k: "UDPPayload i' =
         (if \<exists>u\<in>set (config_urls i). prefix ''udp'' u then payload_used e i else UDPPayload i)"
      by blast+
    have "\<not> is_stream (UDPClient cfg)" by simp
    with m have "filter (\<lambda>c. \<not> is_stream c) (conns i') \<noteq> []"
      unfolding filter_empty_conv by blast
    with n have "filter (prefix ''udp'') (config_urls i) \<noteq> []" by auto
    then have "\<exists>u\<in>set (config_urls i). prefix ''udp'' u" by (auto simp: filter_empty_conv)
    with k s m show "udp_PayloadSize cfg = UDPPayload i'" by simp
  qed
  show ?thesis using A B C D E by blast
qed

theorem connect_defaults_udp_payload_witness:
  "UDPPayload settings_udp_http = 0 \<and>
   config_urls settings_udp_http = [] @ ''udp://h:8089'' # [''http://a:8086''] \<and>
   url_parse healthy_world ''udp://h:8089'' = Inr ''h:8089'' \<and>
   Connect healthy_world settings_udp_http [] =
     (None, settings_udp_http\<lparr>UDPPayload := 512, conns := [conn_udp, conn_a]\<rparr>,
      [EvQuery conn_a (create_command ''telegraf'') None, EvRandSeed]) \<and>
   UDPPayloadSize healthy_world = 512 \<and>
   Connect healthy_world (settings_udp_http\<lparr>UDPPayload := 512, conns := [conn_udp, conn_a]\<rparr>) [] =
     (None, settings_udp_http\<lparr>UDPPayload := 512, conns := [conn_udp, conn_a]\<rparr>,
      [EvQuery conn_a (create_command ''telegraf'') None, EvRandSeed])"
proof -
  let ?i1 = "settings_udp_http\<lparr>UDPPayload := 512, conns := [conn_udp, conn_a]\<rparr>"
  let ?tr1 = "[EvQuery conn_a (create_command ''telegraf'') None, EvRandSeed]"
  have run: "Connect healthy_world settings_udp_http [] = (None, ?i1, ?tr1)"
    by (simp add: run_defs settings_udp_http_def conn_udp_def conn_a_def http_config_def)
  have a: "UDPPayload settings_udp_http = 0" by (simp add: settings_udp_http_def settings_def)
  have b: "config_urls settings_udp_http = [] @ ''udp://h:8089'' # [''http://a:8086'']"
    by (simp add: config_urls_def settings_udp_http_def settings_def)
  have c: "url_parse healthy_world ''udp://h:8089'' = Inr ''h:8089''"
    by (simp add: healthy_world_def parse_host_def)
  have d: "prefix ''udp'' ''udp://h:8089''" by simp
  from connect_defaults_udp_payload[OF run, of "[]" "''udp://h:8089''" "[''http://a:8086'']" "''h:8089''"]
    a b c d
  have "UDPPayload ?i1 = UDPPayloadSize healthy_world" by simp
  then have e: "UDPPayloadSize healthy_world = 512" by simp
  obtain rc i2 tr2 where again: "Connect healthy_world ?i1 [] = (rc, i2, tr2)"
    by (cases "Connect healthy_world ?i1 []") auto
  from connect_defaults_udp_payload[OF again] e
  have "UDPPayload i2 = 512" by simp
  have f: "Connect healthy_world ?i1 [] = (None, ?i1, ?tr1)"
    by (simp add: run_defs settings_udp_http_def conn_udp_def conn_a_def http_config_def)
  show ?thesis by (intro conjI) (rule a b c run e f)+
qed

text \<open>
  The claim as the specification states it fails when the datagram URL does not parse:
  the payload size is unset, the list holds a datagram URL, and after \<open>Connect\<close> the
  payload size is still unset.
\<close>

theorem unparsed_datagram_url_keeps_payload_unset:
  "UDPPayload settings_bad_udp = 0 \<and>
   config_urls settings_bad_udp = [''udp://[fe80::1:8089''] \<and>
   prefix ''udp'' ''udp://[fe80::1:8089'' \<and>
   Connect healthy_world settings_bad_udp [] =
     (Some (ConfigError ''missing ] in host''), settings_bad_udp, []) \<and>
   UDPPayloadSize healthy_world = 512"
  by (simp add: run_defs settings_bad_udp_def)

end
